theory Spec2Isabelle
  imports Main "HOL-Library.Sublist"
begin

section \<open>Strings\<close>

text \<open>
  JavaScript strings are modelled as \<^typ>\<open>string\<close>, a list of characters with the code
  points 0 to 255 (Basic Latin and Latin-1 Supplement); the handlers inspect URLs, anchor
  texts, request parameters and the model's answer with \<^verbatim>\<open>toLowerCase\<close>,
  \<^verbatim>\<open>includes\<close>, \<^verbatim>\<open>match\<close>, \<^verbatim>\<open>replace\<close> and \<^verbatim>\<open>trim\<close>.

  \<^verbatim>\<open>String.prototype.toLowerCase\<close> on these code points: the letters A to Z and the
  letters U+00C0 to U+00DE, the multiplication sign U+00D7 excepted, move up by 32; every
  other character stays.

  \<^verbatim>\<open>String.prototype.toUpperCase\<close> on these code points: the letters a to z and the
  letters U+00E0 to U+00FE, the division sign U+00F7 excepted, move down by 32, and the
  sharp s U+00DF becomes \<^verbatim>\<open>SS\<close>. The upper-case forms of U+00B5 and U+00FF lie beyond
  code point 255; these two characters are left as they are here.
\<close>

definition lower_char :: "char \<Rightarrow> char" where
  "lower_char c =
     (let n = (of_char c :: nat)
      in if (65 \<le> n \<and> n \<le> 90) \<or> (192 \<le> n \<and> n \<le> 222 \<and> n \<noteq> 215)
         then char_of (n + 32) else c)"

definition upper_char :: "char \<Rightarrow> string" where
  "upper_char c =
     (let n = (of_char c :: nat)
      in if (97 \<le> n \<and> n \<le> 122) \<or> (224 \<le> n \<and> n \<le> 254 \<and> n \<noteq> 247)
         then [char_of (n - 32)]
         else if n = 223 then ''SS'' else [c])"

definition toLowerCase :: "string \<Rightarrow> string" where
  "toLowerCase s = map lower_char s"

definition toUpperCase :: "string \<Rightarrow> string" where
  "toUpperCase s = concat (map upper_char s)"

text \<open>\<^verbatim>\<open>s.includes(t)\<close>: \<open>t\<close> occurs in \<open>s\<close> as a contiguous block.\<close>

fun str_includes :: "string \<Rightarrow> string \<Rightarrow> bool" where
  "str_includes [] t = (t = [])"
| "str_includes (c # cs) t = (prefix t (c # cs) \<or> str_includes cs t)"

text \<open>A decimal digit, and a string made of decimal digits only.\<close>

definition is_digit :: "char \<Rightarrow> bool" where
  "is_digit c = (let n = (of_char c :: nat) in 48 \<le> n \<and> n \<le> 57)"

definition all_digits :: "string \<Rightarrow> bool" where
  "all_digits s = list_all is_digit s"

section \<open>Discovery: citation filter and link classification\<close>

text \<open>
  The callback of \<^verbatim>\<open>rawSources.filter\<close> in the search handler:
  \<^verbatim>\<open>
  const lowerUrl = url.toLowerCase();
  const lowerSeason = season.toLowerCase();
  return lowerUrl.includes(year) && lowerUrl.includes(lowerSeason) && !lowerUrl.includes('india');
  \<close>
  The year is used as it was received; only the URL and the season are lower-cased.
\<close>

definition citation_filter :: "string \<Rightarrow> string \<Rightarrow> string \<Rightarrow> bool" where
  "citation_filter sn yr u =
     (let lowerUrl = toLowerCase u; lowerSeason = toLowerCase sn
      in str_includes lowerUrl yr \<and> str_includes lowerUrl lowerSeason
         \<and> \<not> str_includes lowerUrl ''india'')"

text \<open>
  An anchor element of a fetched page: its \<^verbatim>\<open>href\<close> attribute (absent for an anchor
  without one) and its text content.
\<close>

record anchor =
  anchor_href :: "string option"
  anchor_text :: string

text \<open>
  The object \<^verbatim>\<open>result\<close> that the page loop fills: the page URL and the five buckets.
\<close>

record scrape =
  url :: string
  pdf_bucket :: "string list"
  instructions_bucket :: "string list"
  registration_bucket :: "string list"
  fairPlay_bucket :: "string list"
  platform_bucket :: "string list"

definition empty_result :: "string \<Rightarrow> scrape" where
  "empty_result u =
     \<lparr>url = u, pdf_bucket = [], instructions_bucket = [], registration_bucket = [],
      fairPlay_bucket = [], platform_bucket = []\<rparr>"

text \<open>\<^verbatim>\<open>const addLink = (arr, link) => { if (!arr.includes(link)) arr.push(link); }\<close>\<close>

definition addLink :: "string list \<Rightarrow> string \<Rightarrow> string list" where
  "addLink arr link = (if link \<in> set arr then arr else arr @ [link])"

text \<open>
  The five bucket conditions, on the lower-cased text and the lower-cased href, and the
  exclusion of the host's own register and login pages.
\<close>

definition is_excluded :: "string \<Rightarrow> bool" where
  "is_excluded lowerHref =
     (str_includes lowerHref ''chess.com/register'' \<or> str_includes lowerHref ''chess.com/login'')"

definition is_pdf :: "string \<Rightarrow> string \<Rightarrow> bool" where
  "is_pdf txt lowerHref =
     (str_includes txt ''pdf'' \<or> str_includes lowerHref ''.pdf'' \<or> str_includes lowerHref ''drive.google.com''
      \<or> (str_includes lowerHref ''docs.google.com'' \<and> \<not> str_includes lowerHref ''/forms/''))"

definition is_instructions :: "string \<Rightarrow> string \<Rightarrow> bool" where
  "is_instructions txt lowerHref = str_includes txt ''instruction''"

definition is_registration :: "string \<Rightarrow> string \<Rightarrow> bool" where
  "is_registration txt lowerHref =
     (str_includes txt ''registration'' \<or> str_includes txt ''register'' \<or> str_includes txt ''sign up''
      \<or> str_includes lowerHref ''forms.gle'' \<or> str_includes lowerHref ''docs.google.com/forms'')"

definition is_fairPlay :: "string \<Rightarrow> string \<Rightarrow> bool" where
  "is_fairPlay txt lowerHref =
     (str_includes lowerHref ''fairplay-agreement''
      \<or> (str_includes txt ''fair play'' \<and> \<not> str_includes lowerHref ''user-agreement''
           \<and> \<not> str_includes lowerHref ''/cheating'' \<and> \<not> str_includes lowerHref ''legal''))"

definition is_platform :: "string \<Rightarrow> string \<Rightarrow> bool" where
  "is_platform txt lowerHref = str_includes lowerHref ''pcl.gg''"

text \<open>
  The callback of \<^verbatim>\<open>$('a').each\<close>: an anchor without href (or with an empty one) and an
  excluded anchor return before any bucket is looked at; otherwise the five conditions
  are evaluated in turn, each adding the raw href to its bucket.
\<close>

definition each_anchor :: "scrape \<Rightarrow> anchor \<Rightarrow> scrape" where
  "each_anchor result el =
     (case anchor_href el of
        None \<Rightarrow> result
      | Some href \<Rightarrow>
          if href = [] then result
          else
            let txt = toLowerCase (anchor_text el); lowerHref = toLowerCase href in
            if is_excluded lowerHref then result
            else
              let r1 = (if is_pdf txt lowerHref
                        then result\<lparr>pdf_bucket := addLink (pdf_bucket result) href\<rparr> else result);
                  r2 = (if is_instructions txt lowerHref
                        then r1\<lparr>instructions_bucket := addLink (instructions_bucket r1) href\<rparr> else r1);
                  r3 = (if is_registration txt lowerHref
                        then r2\<lparr>registration_bucket := addLink (registration_bucket r2) href\<rparr> else r2);
                  r4 = (if is_fairPlay txt lowerHref
                        then r3\<lparr>fairPlay_bucket := addLink (fairPlay_bucket r3) href\<rparr> else r3)
              in (if is_platform txt lowerHref
                  then r4\<lparr>platform_bucket := addLink (platform_bucket r4) href\<rparr> else r4))"

definition scrape_page :: "string \<Rightarrow> anchor list \<Rightarrow> scrape" where
  "scrape_page u anchors = foldl each_anchor (empty_result u) anchors"

text \<open>The links that landed in some bucket.\<close>

definition bucket_links :: "scrape \<Rightarrow> string set" where
  "bucket_links result =
     set (pdf_bucket result) \<union> set (instructions_bucket result)
     \<union> set (registration_bucket result) \<union> set (fairPlay_bucket result)
     \<union> set (platform_bucket result)"

text \<open>The test that decides whether a page's result is kept.\<close>

definition has_links :: "scrape \<Rightarrow> bool" where
  "has_links result =
     (length (pdf_bucket result) > 0 \<or> length (instructions_bucket result) > 0
      \<or> length (registration_bucket result) > 0 \<or> length (fairPlay_bucket result) > 0
      \<or> length (platform_bucket result) > 0)"

section \<open>The persisted record\<close>

text \<open>
  The value that the extraction stage stores under \<^verbatim>\<open>tournamentInfo\<close>: whatever
  \<^verbatim>\<open>JSON.parse\<close> returned.
\<close>

datatype json =
    JNull
  | JBool bool
  | JNumber int
  | JString string
  | JArray "json list"
  | JObject "(string \<times> json) list"

text \<open>
  A document of the collection \<^verbatim>\<open>ccl-tournament-info\<close>, with the field names of the
  object \<^verbatim>\<open>tournamentData\<close>. A string field that is missing or empty in the stored
  document is the empty string here (both are falsy in the handlers' tests);
  \<^verbatim>\<open>tournamentInfo\<close> is absent until the extraction stage writes it.
\<close>

record tournament =
  season :: string
  year :: string
  source :: string
  pdf :: string
  pdfStorageUrl :: string
  instructions :: string
  registration :: string
  fairPlay :: string
  platform :: string
  tournamentInfo :: "json option"

text \<open>\<^verbatim>\<open>arr[0] || ''\<close> on an array of strings.\<close>

definition first_or_empty :: "string list \<Rightarrow> string" where
  "first_or_empty arr = (case arr of [] \<Rightarrow> [] | x # _ \<Rightarrow> x)"

definition tournamentData :: "string \<Rightarrow> string \<Rightarrow> scrape \<Rightarrow> tournament" where
  "tournamentData sn yr result =
     \<lparr>season = sn, year = yr, source = url result,
      pdf = first_or_empty (pdf_bucket result),
      pdfStorageUrl = [],
      instructions = first_or_empty (instructions_bucket result),
      registration = first_or_empty (registration_bucket result),
      fairPlay = first_or_empty (fairPlay_bucket result),
      platform = first_or_empty (platform_bucket result),
      tournamentInfo = None\<rparr>"

text \<open>
  What the classification table says, independently of how the buckets are filled: the
  hrefs, in page order, of the anchors that are considered (an href is present, it is not
  empty and not excluded) and satisfy a bucket's condition; and the first of them, or the
  empty string when there is none.
\<close>

definition matching_hrefs :: "(string \<Rightarrow> string \<Rightarrow> bool) \<Rightarrow> anchor list \<Rightarrow> string list" where
  "matching_hrefs cond anchors =
     List.map_filter
       (\<lambda>el. case anchor_href el of
                None \<Rightarrow> None
              | Some href \<Rightarrow>
                  if href \<noteq> [] \<and> \<not> is_excluded (toLowerCase href)
                     \<and> cond (toLowerCase (anchor_text el)) (toLowerCase href)
                  then Some href else None)
       anchors"


text \<open>
  ``\<open>s\<close> contains \<open>t\<close>, ignoring case'', in the words of the specification.
\<close>

definition contains_ignoring_case :: "string \<Rightarrow> string \<Rightarrow> bool" where
  "contains_ignoring_case s t = sublist (toLowerCase t) (toLowerCase s)"

section \<open>Requests, responses and collaborators\<close>

text \<open>
  The part of a request that the handlers read: the HTTP method and the two parameters
  \<^verbatim>\<open>season\<close> and \<^verbatim>\<open>year\<close> of the body. A missing parameter is the empty string (both
  are falsy in \<^verbatim>\<open>!season || !year\<close>). The pages send the year as a string.
\<close>

record request =
  req_method :: string
  req_season :: string
  req_year :: string

text \<open>An entry of \<^verbatim>\<open>updatedDocs\<close> in the answer of the upload handler.\<close>

record updatedDoc =
  doc_id :: nat
  storageUrl :: string
  already_exists :: bool

text \<open>
  The answers of the three handlers. \<open>InternalError\<close> is the answer of the outer
  \<^verbatim>\<open>catch\<close>; its body carries the message of the error caught, which is left out.
\<close>

datatype response =
    MethodNotAllowed
  | MissingParams
  | NotFound
  | PdfNotUploaded
  | InternalError
  | AlreadyExists "tournament list"
  | SearchCompleted string "string list" "scrape list" "tournament list"
  | PdfProcessed "updatedDoc list"
  | Extracted json

fun status :: "response \<Rightarrow> nat" where
  "status MethodNotAllowed = 405"
| "status MissingParams = 400"
| "status NotFound = 404"
| "status PdfNotUploaded = 400"
| "status InternalError = 500"
| "status (AlreadyExists savedData) = 200"
| "status (SearchCompleted answer sources scrapedData savedData) = 200"
| "status (PdfProcessed updatedDocs) = 200"
| "status (Extracted info) = 200"

text \<open>The \<^verbatim>\<open>message\<close> of an answer to a request.\<close>

fun message :: "request \<Rightarrow> response \<Rightarrow> string" where
  "message req MethodNotAllowed = ''Method not allowed''"
| "message req MissingParams = ''Season and year are required''"
| "message req NotFound =
     ''No tournament info found for '' @ req_season req @ '' '' @ req_year req @ ''.''"
| "message req PdfNotUploaded = ''PDF has not been uploaded yet.''"
| "message req InternalError = ''Internal server error''"
| "message req (AlreadyExists savedData) =
     ''Tournament info for '' @ req_season req @ '' '' @ req_year req @ '' already exists.''"
| "message req (SearchCompleted answer sources scrapedData savedData) =
     ''Search and save completed''"
| "message req (PdfProcessed updatedDocs) = ''PDF processing completed''"
| "message req (Extracted info) = ''Tournament info extracted and saved successfully''"

text \<open>The \<^verbatim>\<open>exists\<close> flag of the search handler's answer.\<close>

fun exists_flag :: "response \<Rightarrow> bool" where
  "exists_flag (AlreadyExists savedData) = True"
| "exists_flag _ = False"

text \<open>
  How an awaited \<^verbatim>\<open>fetch\<close> ends: the promise rejects, the response arrives with
  \<^verbatim>\<open>ok\<close> false, or it arrives with \<^verbatim>\<open>ok\<close> true and a body.
\<close>

datatype 'a outcome = Rejected | NotOk | Ok 'a

text \<open>
  The collaborators of the handlers, as the handlers see them. Each field says how the
  awaited call ends: \<open>False\<close>, \<open>None\<close> and \<open>Rejected\<close> stand for a call that throws.
  \<^item> \<open>getDocs_ok\<close>: the query on the collection resolves;
  \<^item> \<open>perplexity\<close>: the search provider, from the query to the answer text and the
    citations (a body without the expected shape throws and is covered by \<open>Rejected\<close>);
  \<^item> \<open>fetch_page\<close>: a source page, fetched and parsed, as the list of its anchors;
  \<^item> \<open>addDoc_ok\<close>, \<open>updateDoc_ok\<close>: the write to the collection resolves;
  \<^item> \<open>fetch_pdf\<close>: the bytes behind a URL;
  \<^item> \<open>date_now\<close>: the value of \<^verbatim>\<open>Date.now()\<close> read while the document with the given
    id is processed;
  \<^item> \<open>uploadBytes_ok\<close>, \<open>getDownloadURL\<close>: the blob store, by file name;
  \<^item> \<open>pdf_text\<close>: the text extracted by \<^verbatim>\<open>pdf-parse\<close>;
  \<^item> \<open>llm_invoke\<close>: the content of the model's answer to a prompt;
  \<^item> \<open>JSON_parse\<close>: \<^verbatim>\<open>JSON.parse\<close>, \<open>None\<close> when it throws.
\<close>

record env =
  getDocs_ok :: bool
  perplexity :: "string \<Rightarrow> (string \<times> string list) outcome"
  fetch_page :: "string \<Rightarrow> anchor list outcome"
  addDoc_ok :: "tournament \<Rightarrow> bool"
  updateDoc_ok :: "nat \<Rightarrow> bool"
  fetch_pdf :: "string \<Rightarrow> string outcome"
  date_now :: "nat \<Rightarrow> nat"
  uploadBytes_ok :: "string \<Rightarrow> bool"
  getDownloadURL :: "string \<Rightarrow> string option"
  pdf_text :: "string \<Rightarrow> string option"
  llm_invoke :: "string \<Rightarrow> string option"
  JSON_parse :: "string \<Rightarrow> json option"

text \<open>
  What a handler did to the outside world, in order: a search issued, a page fetch
  issued, a document inserted, a binary fetch issued, a blob stored for the document with
  the given id under the given file name, a document updated, the model invoked.
  \<open>Insert\<close>, \<open>Upload\<close> and \<open>Update\<close> are recorded when the call has resolved.
\<close>

datatype effect =
    Search string
  | FetchPage string
  | Insert tournament
  | FetchPdf string
  | Upload nat string
  | Update nat
  | Invoke string

text \<open>
  The collection is the list of its documents, in the order in which a query returns
  them; the id of a document is its position (documents are never deleted, and a new one
  is appended). The query of all three handlers:
  \<^verbatim>\<open>query(tournamentsRef, where("season", "==", season), where("year", "==", year))\<close>
\<close>

definition getDocs :: "tournament list \<Rightarrow> string \<Rightarrow> string \<Rightarrow> (nat \<times> tournament) list" where
  "getDocs docs sn yr = filter (\<lambda>(i, d). season d = sn \<and> year d = yr) (enumerate 0 docs)"

section \<open>The search handler\<close>

text \<open>\<^verbatim>\<open>season.charAt(0).toUpperCase() + season.slice(1)\<close>\<close>

definition capitalize :: "string \<Rightarrow> string" where
  "capitalize s = (case s of [] \<Rightarrow> [] | c # cs \<Rightarrow> toUpperCase [c] @ cs)"

definition searchQuery :: "string \<Rightarrow> string \<Rightarrow> string" where
  "searchQuery sn yr =
     ''Collegiate Chess League '' @ capitalize sn @ '' '' @ yr @ '' site:chess.com''"

text \<open>
  The loop over the filtered sources: a page whose fetch throws or is not ok is skipped,
  and a page is kept only if some bucket is not empty.
\<close>

fun scrape_sources :: "env \<Rightarrow> string list \<Rightarrow> scrape list" where
  "scrape_sources env [] = []"
| "scrape_sources env (u # us) =
     (case fetch_page env u of
        Ok anchors \<Rightarrow>
          (let result = scrape_page u anchors
           in if has_links result then result # scrape_sources env us
              else scrape_sources env us)
      | _ \<Rightarrow> scrape_sources env us)"

text \<open>
  The loop that saves one document per result. \<^verbatim>\<open>addDoc\<close> is not guarded: when it
  throws, the loop stops and the outer \<^verbatim>\<open>catch\<close> answers; the documents inserted
  before stay. The result is the documents inserted and whether the loop completed.
\<close>

fun save_results :: "env \<Rightarrow> string \<Rightarrow> string \<Rightarrow> scrape list \<Rightarrow> tournament list \<times> bool" where
  "save_results env sn yr [] = ([], True)"
| "save_results env sn yr (result # results) =
     (let t = tournamentData sn yr result
      in if addDoc_ok env t
         then (let (savedData, completed) = save_results env sn yr results
               in (t # savedData, completed))
         else ([], False))"

definition run_ccl_search ::
  "env \<Rightarrow> tournament list \<Rightarrow> request \<Rightarrow> tournament list \<times> response \<times> effect list" where
  "run_ccl_search env docs req =
     (if req_method req \<noteq> ''POST'' then (docs, MethodNotAllowed, [])
      else
        let sn = req_season req; yr = req_year req in
        if sn = [] \<or> yr = [] then (docs, MissingParams, [])
        else if \<not> getDocs_ok env then (docs, InternalError, [])
        else
          let querySnapshot = getDocs docs sn yr in
          if querySnapshot \<noteq> [] then (docs, AlreadyExists (map snd querySnapshot), [])
          else
            (case perplexity env (searchQuery sn yr) of
               Ok (answer, rawSources) \<Rightarrow>
                 (let filteredSources = filter (citation_filter sn yr) rawSources;
                      results = scrape_sources env filteredSources;
                      (savedData, completed) = save_results env sn yr results;
                      log = Search (searchQuery sn yr) # map FetchPage filteredSources
                            @ map Insert savedData
                  in (docs @ savedData,
                      if completed
                      then SearchCompleted answer filteredSources results savedData
                      else InternalError,
                      log))
             | _ \<Rightarrow> (docs, InternalError, [Search (searchQuery sn yr)])))"

section \<open>The upload handler\<close>

text \<open>
  \<^verbatim>\<open>pdfLink.match(/\/d\/(.+?)\//)\<close>, as the text of group 1 of the leftmost match, if
  there is one. The dot matches any character but a line terminator. After \<^verbatim>\<open>/d/\<close>
  the lazy group takes one character, whatever it is, and then as few more as needed to
  reach a slash; \<open>until_slash\<close> is the part after the first character.
\<close>

definition is_line_terminator :: "char \<Rightarrow> bool" where
  "is_line_terminator c = (c = CHR 0x0A \<or> c = CHR 0x0D)"

fun until_slash :: "string \<Rightarrow> string option" where
  "until_slash [] = None"
| "until_slash (c # cs) =
     (if c = CHR ''/'' then Some []
      else if is_line_terminator c then None
      else map_option ((#) c) (until_slash cs))"

definition lazy_group :: "string \<Rightarrow> string option" where
  "lazy_group s =
     (case s of
        [] \<Rightarrow> None
      | c # cs \<Rightarrow> if is_line_terminator c then None else map_option ((#) c) (until_slash cs))"

fun driveIdMatch :: "string \<Rightarrow> string option" where
  "driveIdMatch [] = None"
| "driveIdMatch (c # cs) =
     (case (if prefix ''/d/'' (c # cs) then lazy_group (drop 3 (c # cs)) else None) of
        Some fileId \<Rightarrow> Some fileId
      | None \<Rightarrow> driveIdMatch cs)"

definition downloadUrl :: "string \<Rightarrow> string" where
  "downloadUrl fileId = ''https://drive.google.com/uc?export=download&id='' @ fileId"

text \<open>A number as \<^verbatim>\<open>${Date.now()}\<close> prints it.\<close>

fun string_of_nat :: "nat \<Rightarrow> string" where
  "string_of_nat n =
     (if n < 10 then [''0123456789'' ! n]
      else string_of_nat (n div 10) @ [''0123456789'' ! (n mod 10)])"

declare string_of_nat.simps [simp del]

definition fileName :: "string \<Rightarrow> string \<Rightarrow> nat \<Rightarrow> string" where
  "fileName sn yr now =
     ''ccl/'' @ sn @ ''/'' @ yr @ ''/'' @ string_of_nat now @ ''_ccl_'' @ sn @ ''_'' @ yr @ ''.pdf''"

text \<open>
  The body of the loop over the documents of the snapshot. Its state is the collection,
  the array \<^verbatim>\<open>updatedDocs\<close> and the effects so far. Everything from the match to the
  update is inside a \<^verbatim>\<open>try\<close> whose \<^verbatim>\<open>catch\<close> only logs, so a call that throws ends the
  work on this document and the loop goes on.
\<close>

definition process_document ::
  "env \<Rightarrow> string \<Rightarrow> string \<Rightarrow> tournament list \<times> updatedDoc list \<times> effect list
     \<Rightarrow> nat \<times> tournament \<Rightarrow> tournament list \<times> updatedDoc list \<times> effect list" where
  "process_document env sn yr st document =
     (let (docs, updatedDocs, log) = st; (i, data) = document in
      if pdf data \<noteq> [] \<and> pdfStorageUrl data = [] then
        (case driveIdMatch (pdf data) of
           None \<Rightarrow> st
         | Some fileId \<Rightarrow>
             if fileId = [] then st
             else
               (case fetch_pdf env (downloadUrl fileId) of
                  Ok bytes \<Rightarrow>
                    (let name = fileName sn yr (date_now env i) in
                     if \<not> uploadBytes_ok env name
                     then (docs, updatedDocs, log @ [FetchPdf (downloadUrl fileId)])
                     else
                       (case getDownloadURL env name of
                          None \<Rightarrow>
                            (docs, updatedDocs,
                             log @ [FetchPdf (downloadUrl fileId), Upload i name])
                        | Some url' \<Rightarrow>
                            if \<not> updateDoc_ok env i
                            then (docs, updatedDocs,
                                  log @ [FetchPdf (downloadUrl fileId), Upload i name])
                            else (docs[i := (docs ! i)\<lparr>pdfStorageUrl := url'\<rparr>],
                                  updatedDocs
                                  @ [\<lparr>doc_id = i, storageUrl = url', already_exists = False\<rparr>],
                                  log @ [FetchPdf (downloadUrl fileId), Upload i name, Update i])))
                | _ \<Rightarrow> (docs, updatedDocs, log @ [FetchPdf (downloadUrl fileId)])))
      else if pdfStorageUrl data \<noteq> [] then
        (docs,
         updatedDocs
         @ [\<lparr>doc_id = i, storageUrl = pdfStorageUrl data, already_exists = True\<rparr>],
         log)
      else st)"

definition upload_ccl_pdf ::
  "env \<Rightarrow> tournament list \<Rightarrow> request \<Rightarrow> tournament list \<times> response \<times> effect list" where
  "upload_ccl_pdf env docs req =
     (if req_method req \<noteq> ''POST'' then (docs, MethodNotAllowed, [])
      else
        let sn = req_season req; yr = req_year req in
        if sn = [] \<or> yr = [] then (docs, MissingParams, [])
        else if \<not> getDocs_ok env then (docs, InternalError, [])
        else
          let querySnapshot = getDocs docs sn yr in
          if querySnapshot = [] then (docs, NotFound, [])
          else
            (let (docs', updatedDocs, log) =
                   foldl (process_document env sn yr) (docs, [], []) querySnapshot
             in (docs', PdfProcessed updatedDocs, log)))"

section \<open>The extraction handler\<close>

text \<open>
  The lines of the prompt template before the document text. The template ends with the
  text of the document and a line break.
\<close>

definition prompt_lines :: "string list" where
  \<open>prompt_lines =
   [''You are a helpful assistant. Based on the following tournament rules document, extract all the required information and return it as a single JSON object.'',
    '''',
    ''The JSON object must have the following structure:'',
    ''{'',
    ''    "logistics": ['',
    ''        {"title": "Registration Opens", "date": "YYYY-MM-DD HH:MM AM/PM PT"},'',
    ''        {"title": "Registration Closes", "date": "YYYY-MM-DD HH:MM AM/PM PT"},'',
    ''        {"title": "Schedule Release", "date": "YYYY-MM-DD HH:MM AM/PM PT"},'',
    ''        {"title": "Roster Lock", "date": "YYYY-MM-DD HH:MM AM/PM PT"}'',
    ''    ],'',
    ''    "regular_season": ['',
    ''        {"title": "Regular Season Round 1", "date": "YYYY-MM-DD HH:MM AM/PM PT"},'',
    ''        // ... more rounds'',
    ''    ],'',
    ''    "divisions": ['',
    ''        {'',
    ''            "division": 1,'',
    ''            "playoff_rounds": ['',
    ''                {"title": "Quarterfinals", "date": "YYYY-MM-DD HH:MM AM/PM PT"},'',
    ''                // ... more rounds'',
    ''            ]'',
    ''        },'',
    ''        {'',
    ''            "division": "2+",'',
    ''            "playoff_rounds": ['',
    ''                {"title": "Round 1", "date": "YYYY-MM-DD HH:MM AM/PM PT"},'',
    ''                // ... more rounds'',
    ''            ]'',
    ''        }'',
    ''    ],'',
    ''    "requirements": {'',
    ''        "minimum_account_age": <numeric_value>,'',
    ''        "minimum_games": <numeric_value>'',
    ''    }'',
    ''}'',
    ''Specific Instructions:'',
    ''1. Dates should be formatted as "YYYY-MM-DD HH:MM AM/PM PT".'',
    ''2. For "logistics", find the dates for registration open, close, schedule release, and roster locking.'',
    ''3. For "regular_season", list all events in the 'schedule' section. Note the time of day for group A teams (PT).'',
    ''3. For "regular_season", list all events in the 'schedule' section. Note the time of day for group A teams (PT).'',
    ''4. For "divisions", extract the playoff schedules.'',
    ''   - Division 1 rounds: Quarterfinals, Semifinals, 3rd Place/Final.'',
    ''   - Division 2+ rounds: Round 1, Quarterfinal, Semifinal, Final/3rd Place.'',
    ''5. For "requirements":'',
    ''   - Find "Minimum account age" in section 5.4.4 (in days).'',
    ''   - Find "Minimum number of rated blitz games" in section 5.4.3.'',
    '''',
    ''Context:'']\<close>

definition newline :: string where
  "newline = [CHR 0x0A]"

definition extraction_prompt :: "string \<Rightarrow> string" where
  "extraction_prompt fullText =
     concat (map (\<lambda>l. l @ newline) prompt_lines) @ fullText @ newline"

text \<open>
  \<^verbatim>\<open>s.replace(/pat/g, '')\<close> for a pattern that is a fixed, non-empty text: every
  occurrence is removed, scanning from the left, an occurrence found being skipped whole.
\<close>

function remove_all :: "string \<Rightarrow> string \<Rightarrow> string" where
  "remove_all pat s =
     (if s = [] then []
      else if pat \<noteq> [] \<and> prefix pat s then remove_all pat (drop (length pat) s)
      else hd s # remove_all pat (tl s))"
  by pat_completeness auto
termination
  by (relation "measure (\<lambda>(pat, s). length s)") auto

declare remove_all.simps [simp del]

text \<open>
  \<^verbatim>\<open>trim\<close>: white space and line terminators are removed at both ends. Among the code
  points 0 to 255 these are tab, line feed, vertical tab, form feed, carriage return,
  space and the no-break space U+00A0.
\<close>

definition is_space :: "char \<Rightarrow> bool" where
  "is_space c = (of_char c \<in> {9, 10, 11, 12, 13, 32, 160 :: nat})"

definition trim :: "string \<Rightarrow> string" where
  "trim s = rev (dropWhile is_space (rev (dropWhile is_space s)))"

definition fence :: string where
  "fence = replicate 3 (CHR 0x60)"

text \<open>
  \<^verbatim>\<open>result.content.replace(/```json/g, '').replace(/```/g, '').trim()\<close>; the fence is
  three backquotes.
\<close>

definition clean_content :: "string \<Rightarrow> string" where
  "clean_content content = trim (remove_all fence (remove_all (fence @ ''json'') content))"

text \<open>
  The handler reads the first document of the snapshot only. From the fetch on, every
  failure reaches the outer \<^verbatim>\<open>catch\<close>: a rejected fetch, a response that is not ok
  (the handler throws), a document that \<^verbatim>\<open>pdf-parse\<close> cannot read, a model call that
  throws, a content that \<^verbatim>\<open>JSON.parse\<close> rejects (the inner \<^verbatim>\<open>catch\<close> throws again),
  an update that throws.
\<close>

definition extract_ccl_info ::
  "env \<Rightarrow> tournament list \<Rightarrow> request \<Rightarrow> tournament list \<times> response \<times> effect list" where
  "extract_ccl_info env docs req =
     (if req_method req \<noteq> ''POST'' then (docs, MethodNotAllowed, [])
      else
        let sn = req_season req; yr = req_year req in
        if sn = [] \<or> yr = [] then (docs, MissingParams, [])
        else if \<not> getDocs_ok env then (docs, InternalError, [])
        else
          (case getDocs docs sn yr of
             [] \<Rightarrow> (docs, NotFound, [])
           | (docId, docData) # _ \<Rightarrow>
               if pdfStorageUrl docData = [] then (docs, PdfNotUploaded, [])
               else
                 (case fetch_pdf env (pdfStorageUrl docData) of
                    Ok buffer \<Rightarrow>
                      (case pdf_text env buffer of
                         None \<Rightarrow> (docs, InternalError, [FetchPdf (pdfStorageUrl docData)])
                       | Some fullText \<Rightarrow>
                           (let prompt = extraction_prompt fullText;
                                log = [FetchPdf (pdfStorageUrl docData), Invoke prompt]
                            in case llm_invoke env prompt of
                                 None \<Rightarrow> (docs, InternalError, log)
                               | Some content \<Rightarrow>
                                   (case JSON_parse env (clean_content content) of
                                      None \<Rightarrow> (docs, InternalError, log)
                                    | Some info \<Rightarrow>
                                        if \<not> updateDoc_ok env docId
                                        then (docs, InternalError, log)
                                        else (docs[docId := (docs ! docId)\<lparr>tournamentInfo := Some info\<rparr>],
                                              Extracted info,
                                              log @ [Update docId]))))
                  | _ \<Rightarrow> (docs, InternalError, [FetchPdf (pdfStorageUrl docData)]))))"

section \<open>A sample scenario\<close>

text \<open>
  One source page, a request and collaborators that all succeed, used to run the
  handlers on concrete inputs. The page has the host's register link, a drive viewer
  link, a second document link, a registration form and an anchor without href.
  \<open>JSON_parse\<close> is given on the one text the scenario parses, the empty object; on every
  other text of the scenario \<^verbatim>\<open>JSON.parse\<close> throws.
\<close>

definition sample_page :: "anchor list" where
  "sample_page =
     [\<lparr>anchor_href = Some ''https://www.chess.com/register'', anchor_text = ''Register''\<rparr>,
      \<lparr>anchor_href = Some ''https://drive.google.com/file/d/ABC123/view'',
       anchor_text = ''Download PDF''\<rparr>,
      \<lparr>anchor_href = Some ''https://example.com/rules-old.pdf'', anchor_text = ''Old rules''\<rparr>,
      \<lparr>anchor_href = Some ''https://forms.gle/abc'', anchor_text = ''Registration form''\<rparr>,
      \<lparr>anchor_href = None, anchor_text = ''top''\<rparr>]"

definition sample_source :: string where
  "sample_source = ''https://www.chess.com/news/view/2026-spring-league''"

definition sample_content :: string where
  "sample_content = fence @ ''json'' @ newline @ ''{}'' @ newline @ fence"

definition sample_env :: env where
  "sample_env =
     \<lparr>getDocs_ok = True,
      perplexity = (\<lambda>q. Ok (''The league starts in February.'',
                              [sample_source, ''https://www.chess.com/india-2026-spring''])),
      fetch_page = (\<lambda>u. if u = sample_source then Ok sample_page else NotOk),
      addDoc_ok = (\<lambda>t. True),
      updateDoc_ok = (\<lambda>i. True),
      fetch_pdf = (\<lambda>u. Ok ''%PDF-1.7''),
      date_now = (\<lambda>i. 1730000000123),
      uploadBytes_ok = (\<lambda>name. True),
      getDownloadURL = (\<lambda>name. Some (''https://storage.example/'' @ name)),
      pdf_text = (\<lambda>bytes. Some ''Rules of the league''),
      llm_invoke = (\<lambda>prompt. Some sample_content),
      JSON_parse = map_of [(''{}'', JObject [])]\<rparr>"

definition sample_req :: request where
  "sample_req = \<lparr>req_method = ''POST'', req_season = ''spring'', req_year = ''2026''\<rparr>"

text \<open>The document that the search handler saves for the sample page.\<close>

definition sample_doc :: tournament where
  "sample_doc =
     \<lparr>season = ''spring'', year = ''2026'', source = sample_source,
      pdf = ''https://drive.google.com/file/d/ABC123/view'',
      pdfStorageUrl = [],
      instructions = [],
      registration = ''https://forms.gle/abc'',
      fairPlay = [],
      platform = [],
      tournamentInfo = None\<rparr>"

text \<open>
  Variants of the scenario: a document whose link is a plain \<^verbatim>\<open>.pdf\<close> URL, one whose
  link is the viewer link of the specification, the sample document once archived;
  collaborators whose \<^verbatim>\<open>updateDoc\<close> throws (at two different times), and a model whose
  answer is not JSON.
\<close>

definition plain_doc :: tournament where
  "plain_doc = sample_doc\<lparr>pdf := ''https://example.com/rules.pdf''\<rparr>"

definition viewer_doc :: tournament where
  "viewer_doc = sample_doc\<lparr>pdf := ''https://drive.google.com/file/d/XYZ789/view?usp=sharing''\<rparr>"

text \<open>A document whose link has the marker \<^verbatim>\<open>/d/\<close> twice.\<close>

definition two_marker_doc :: tournament where
  "two_marker_doc =
     sample_doc\<lparr>pdf := ''https://drive.google.com/d/u/0/file/d/XYZ789/view?usp=sharing''\<rparr>"

definition sample_storage_url :: string where
  "sample_storage_url =
     ''https://storage.example/ccl/spring/2026/1730000000123_ccl_spring_2026.pdf''"

definition archived_doc :: tournament where
  "archived_doc = sample_doc\<lparr>pdfStorageUrl := sample_storage_url\<rparr>"

definition env_update_fails :: env where
  "env_update_fails = sample_env\<lparr>updateDoc_ok := (\<lambda>i. False)\<rparr>"

definition env_update_fails_later :: env where
  "env_update_fails_later = env_update_fails\<lparr>date_now := (\<lambda>i. 1730000005000)\<rparr>"

definition env_not_json :: env where
  "env_not_json = sample_env\<lparr>llm_invoke := (\<lambda>prompt. Some ''I could not find the dates.'')\<rparr>"

section \<open>Properties of the string operations\<close>

lemma str_includes_sublist: "str_includes s t \<longleftrightarrow> sublist t s"
  by (induction s) (auto simp: sublist_Cons_right)

lemma lower_char_digit: "is_digit c \<Longrightarrow> lower_char c = c"
  by (simp add: is_digit_def lower_char_def Let_def)

lemma toLowerCase_digits: "all_digits s \<Longrightarrow> toLowerCase s = s"
  by (induction s) (simp_all add: all_digits_def toLowerCase_def lower_char_digit)

lemma str_includes_toLowerCase:
  "str_includes s t \<Longrightarrow> str_includes (toLowerCase s) (toLowerCase t)"
  unfolding str_includes_sublist toLowerCase_def by (rule map_mono_sublist)


section \<open>The citation filter\<close>

text \<open>
  Claim C6, as stated, fails for a year with an upper-case letter: the filter lower-cases
  the URL and the season, not the year, so the URL below, which contains the year
  \<^verbatim>\<open>2026A\<close> and the season ignoring case and has no \<^verbatim>\<open>india\<close> in it, is dropped. The
  test for \<^verbatim>\<open>india\<close> is made on the lower-cased URL: the second URL does not contain
  the text \<^verbatim>\<open>india\<close> and is dropped all the same.
\<close>

theorem citation_filter_counterexample:
  "contains_ignoring_case ''https://example.com/2026a-spring'' ''2026A''
   \<and> contains_ignoring_case ''https://example.com/2026a-spring'' ''spring''
   \<and> \<not> contains_ignoring_case ''https://example.com/2026a-spring'' ''india''
   \<and> \<not> citation_filter ''spring'' ''2026A'' ''https://example.com/2026a-spring''
   \<and> \<not> sublist ''india'' ''https://example.com/INDIA-2026-spring''
   \<and> \<not> citation_filter ''spring'' ''2026'' ''https://example.com/INDIA-2026-spring''"
proof -
  have a: "contains_ignoring_case ''https://example.com/2026a-spring'' ''2026A''"
    unfolding contains_ignoring_case_def by code_simp
  have b: "contains_ignoring_case ''https://example.com/2026a-spring'' ''spring''"
    unfolding contains_ignoring_case_def by code_simp
  have c: "\<not> contains_ignoring_case ''https://example.com/2026a-spring'' ''india''"
    unfolding contains_ignoring_case_def by code_simp
  have d: "\<not> citation_filter ''spring'' ''2026A'' ''https://example.com/2026a-spring''"
    by code_simp
  have e: "\<not> sublist ''india'' ''https://example.com/INDIA-2026-spring''"
    by code_simp
  have f: "\<not> citation_filter ''spring'' ''2026'' ''https://example.com/INDIA-2026-spring''"
    by code_simp
  from a b c d e f show ?thesis by blast
qed

text \<open>
  Claim C6, amended. For every URL, season and year, the URL survives the filter if and
  only if the lower-cased URL contains the year as it was given, the URL contains the
  season name ignoring case, and the URL does not contain \<^verbatim>\<open>india\<close> ignoring case. For
  a year without upper-case letter (\<open>toLowerCase yr = yr\<close>, which holds for every year made
  of digits) the first condition is that the URL contains the year ignoring case. The three URLs of the
  specification are accepted, rejected for the geographic token, and rejected for the
  wrong year.
\<close>

theorem citation_filter_spec:
  "citation_filter sn yr u =
     (sublist yr (toLowerCase u) \<and> contains_ignoring_case u sn
      \<and> \<not> contains_ignoring_case u ''india'')
   \<and> (toLowerCase yr = yr \<longrightarrow>
        citation_filter sn yr u =
          (contains_ignoring_case u yr \<and> contains_ignoring_case u sn
           \<and> \<not> contains_ignoring_case u ''india''))
   \<and> (all_digits yr \<longrightarrow> toLowerCase yr = yr)
   \<and> citation_filter ''spring'' ''2026'' ''https://example.com/2026-spring-rules''
   \<and> \<not> citation_filter ''spring'' ''2026'' ''https://example.com/india-2026-spring''
   \<and> \<not> citation_filter ''spring'' ''2026'' ''https://example.com/2025-spring''"
proof -
  have india: "toLowerCase ''india'' = ''india''"
    by code_simp
  have exact: "citation_filter sn yr u =
     (sublist yr (toLowerCase u) \<and> contains_ignoring_case u sn
      \<and> \<not> contains_ignoring_case u ''india'')"
    by (simp add: citation_filter_def contains_ignoring_case_def str_includes_sublist india Let_def)
  have general: "toLowerCase yr = yr \<longrightarrow>
      citation_filter sn yr u =
        (contains_ignoring_case u yr \<and> contains_ignoring_case u sn
         \<and> \<not> contains_ignoring_case u ''india'')"
    by (simp add: citation_filter_def contains_ignoring_case_def str_includes_sublist india Let_def)
  have ex1: "citation_filter ''spring'' ''2026'' ''https://example.com/2026-spring-rules''"
    by code_simp
  have ex2: "\<not> citation_filter ''spring'' ''2026'' ''https://example.com/india-2026-spring''"
    by code_simp
  have ex3: "\<not> citation_filter ''spring'' ''2026'' ''https://example.com/2025-spring''"
    by code_simp
  have digits: "all_digits yr \<longrightarrow> toLowerCase yr = yr"
    by (simp add: toLowerCase_digits)
  from exact general digits ex1 ex2 ex3 show ?thesis by blast
qed

theorem citation_filter_spec_witness:
  "all_digits ''2026''
   \<and> toLowerCase ''2026'' = ''2026''
   \<and> citation_filter ''Spring'' ''2026'' ''https://www.chess.com/news/view/2026-SPRING-league''
   \<and> contains_ignoring_case ''https://www.chess.com/news/view/2026-SPRING-league'' ''2026''
   \<and> contains_ignoring_case ''https://www.chess.com/news/view/2026-SPRING-league'' ''Spring''
   \<and> \<not> contains_ignoring_case ''https://www.chess.com/news/view/2026-SPRING-league'' ''india''"
proof -
  have d: "all_digits ''2026''"
    by code_simp
  have f: "citation_filter ''Spring'' ''2026'' ''https://www.chess.com/news/view/2026-SPRING-league''"
    by code_simp
  note t = citation_filter_spec [where yr = "''2026''" and sn = "''Spring''"
      and u = "''https://www.chess.com/news/view/2026-SPRING-league''"]
  from t d have y: "toLowerCase ''2026'' = ''2026''" by blast
  from t y f d show ?thesis by simp
qed

section \<open>Link classification\<close>

lemma set_addLink: "set (addLink acc h) = insert h (set acc)"
  by (auto simp: addLink_def)

lemma set_foldl_addLink: "set (foldl addLink acc hs) = set acc \<union> set hs"
  by (induction hs arbitrary: acc) (auto simp: set_addLink)




lemma matching_hrefs_Nil: "matching_hrefs cond [] = []"
  by (simp add: matching_hrefs_def List.map_filter_simps)

lemma matching_hrefs_Cons:
  "matching_hrefs cond (el # els) =
     (case anchor_href el of None \<Rightarrow> matching_hrefs cond els
      | Some href \<Rightarrow> if href \<noteq> [] \<and> \<not> is_excluded (toLowerCase href)
                     \<and> cond (toLowerCase (anchor_text el)) (toLowerCase href)
          then href # matching_hrefs cond els else matching_hrefs cond els)"
  by (simp add: matching_hrefs_def List.map_filter_simps split: option.splits)

lemma matching_hrefs_split:
  "matching_hrefs cond (el # els) = matching_hrefs cond [el] @ matching_hrefs cond els"
  by (simp add: matching_hrefs_Cons matching_hrefs_Nil split: option.splits)

lemma set_matching_hrefs:
  "set (matching_hrefs cond els) =
     {h. \<exists>el \<in> set els. anchor_href el = Some h \<and> h \<noteq> [] \<and> \<not> is_excluded (toLowerCase h)
          \<and> cond (toLowerCase (anchor_text el)) (toLowerCase h)}"
  by (induction els) (auto simp: matching_hrefs_Nil matching_hrefs_Cons split: option.splits)

lemmas each_anchor_unfold = each_anchor_def matching_hrefs_Cons matching_hrefs_Nil Let_def

lemma pdf_bucket_each:
  "pdf_bucket (each_anchor r el) = foldl addLink (pdf_bucket r) (matching_hrefs is_pdf [el])"
  by (simp add: each_anchor_unfold split: option.splits)

lemma instructions_bucket_each:
  "instructions_bucket (each_anchor r el) =
     foldl addLink (instructions_bucket r) (matching_hrefs is_instructions [el])"
  by (simp add: each_anchor_unfold split: option.splits)

lemma registration_bucket_each:
  "registration_bucket (each_anchor r el) =
     foldl addLink (registration_bucket r) (matching_hrefs is_registration [el])"
  by (simp add: each_anchor_unfold split: option.splits)

lemma fairPlay_bucket_each:
  "fairPlay_bucket (each_anchor r el) =
     foldl addLink (fairPlay_bucket r) (matching_hrefs is_fairPlay [el])"
  by (simp add: each_anchor_unfold split: option.splits)

lemma platform_bucket_each:
  "platform_bucket (each_anchor r el) =
     foldl addLink (platform_bucket r) (matching_hrefs is_platform [el])"
  by (simp add: each_anchor_unfold split: option.splits)

lemma url_each: "url (each_anchor r el) = url r"
  by (simp add: each_anchor_def Let_def split: option.splits)

lemma bucket_foldl:
  assumes step: "\<And>r el. b (each_anchor r el) = foldl addLink (b r) (matching_hrefs cond [el])"
  shows "b (foldl each_anchor r els) = foldl addLink (b r) (matching_hrefs cond els)"
proof (induction els arbitrary: r)
  case Nil
  show ?case by (simp add: matching_hrefs_Nil)
next
  case (Cons el els)
  have "b (foldl each_anchor r (el # els)) = foldl addLink (b (each_anchor r el)) (matching_hrefs cond els)"
    by (simp add: Cons.IH)
  also have "\<dots> = foldl addLink (b r) (matching_hrefs cond [el] @ matching_hrefs cond els)"
    by (simp add: step)
  finally show ?case
    by (simp only: matching_hrefs_split [of cond el els])
qed

lemma url_foldl: "url (foldl each_anchor r els) = url r"
  by (induction els arbitrary: r) (simp_all add: url_each)

lemma scrape_page_buckets:
  "pdf_bucket (scrape_page u els) = foldl addLink [] (matching_hrefs is_pdf els)"
  "instructions_bucket (scrape_page u els) = foldl addLink [] (matching_hrefs is_instructions els)"
  "registration_bucket (scrape_page u els) = foldl addLink [] (matching_hrefs is_registration els)"
  "fairPlay_bucket (scrape_page u els) = foldl addLink [] (matching_hrefs is_fairPlay els)"
  "platform_bucket (scrape_page u els) = foldl addLink [] (matching_hrefs is_platform els)"
  "url (scrape_page u els) = u"
  unfolding scrape_page_def
  by (simp_all add: bucket_foldl [OF pdf_bucket_each] bucket_foldl [OF instructions_bucket_each]
      bucket_foldl [OF registration_bucket_each] bucket_foldl [OF fairPlay_bucket_each]
      bucket_foldl [OF platform_bucket_each] url_foldl empty_result_def)


lemma excluded_not_in_buckets:
  "is_excluded (toLowerCase h) \<Longrightarrow> h \<notin> bucket_links (scrape_page u els)"
  by (auto simp: bucket_links_def scrape_page_buckets set_foldl_addLink set_matching_hrefs)

lemma excluded_raw:
  assumes "str_includes h ''chess.com/register'' \<or> str_includes h ''chess.com/login''"
  shows "is_excluded (toLowerCase h)"
proof -
  have r: "toLowerCase ''chess.com/register'' = ''chess.com/register''" by code_simp
  have l: "toLowerCase ''chess.com/login'' = ''chess.com/login''" by code_simp
  from assms str_includes_toLowerCase [of h "''chess.com/register''"]
    str_includes_toLowerCase [of h "''chess.com/login''"]
  show ?thesis unfolding is_excluded_def r l by blast
qed


text \<open>
  Claim C7. On any page that has the anchor with href
  \<^verbatim>\<open>https://drive.google.com/file/d/ABC123/view\<close> and text \<^verbatim>\<open>Download PDF\<close>, that
  href is in the document bucket. An anchor whose href contains the host's register or
  login path leaves the result as it was (it is skipped before any bucket condition is
  evaluated), and such an href is in no bucket of any page.
\<close>

theorem classification_examples:
  "(\<lparr>anchor_href = Some ''https://drive.google.com/file/d/ABC123/view'',
      anchor_text = ''Download PDF''\<rparr> \<in> set els
      \<longrightarrow> ''https://drive.google.com/file/d/ABC123/view'' \<in> set (pdf_bucket (scrape_page u els)))
   \<and> (str_includes h ''chess.com/register'' \<or> str_includes h ''chess.com/login''
      \<longrightarrow> each_anchor result \<lparr>anchor_href = Some h, anchor_text = t\<rparr> = result
          \<and> h \<notin> bucket_links (scrape_page u els))"
proof -
  let ?d = "''https://drive.google.com/file/d/ABC123/view''"
  have c: "?d \<noteq> [] \<and> \<not> is_excluded (toLowerCase ?d)
           \<and> is_pdf (toLowerCase ''Download PDF'') (toLowerCase ?d)"
    by code_simp
  have one: "\<lparr>anchor_href = Some ?d, anchor_text = ''Download PDF''\<rparr> \<in> set els
      \<longrightarrow> ?d \<in> set (pdf_bucket (scrape_page u els))"
    unfolding scrape_page_buckets set_foldl_addLink set_matching_hrefs
    using c by force
  have two: "str_includes h ''chess.com/register'' \<or> str_includes h ''chess.com/login''
      \<longrightarrow> each_anchor result \<lparr>anchor_href = Some h, anchor_text = t\<rparr> = result
          \<and> h \<notin> bucket_links (scrape_page u els)"
  proof
    assume a: "str_includes h ''chess.com/register'' \<or> str_includes h ''chess.com/login''"
    then have e: "is_excluded (toLowerCase h)" by (rule excluded_raw)
    then have "each_anchor result \<lparr>anchor_href = Some h, anchor_text = t\<rparr> = result"
      by (simp add: each_anchor_def Let_def)
    with e show "each_anchor result \<lparr>anchor_href = Some h, anchor_text = t\<rparr> = result
          \<and> h \<notin> bucket_links (scrape_page u els)"
      by (simp add: excluded_not_in_buckets)
  qed
  from one two show ?thesis by blast
qed

theorem classification_examples_witness:
  "\<lparr>anchor_href = Some ''https://drive.google.com/file/d/ABC123/view'',
     anchor_text = ''Download PDF''\<rparr> \<in> set sample_page
   \<and> ''https://drive.google.com/file/d/ABC123/view''
       \<in> set (pdf_bucket (scrape_page sample_source sample_page))
   \<and> str_includes ''https://www.chess.com/register'' ''chess.com/register''
   \<and> each_anchor (empty_result sample_source)
         \<lparr>anchor_href = Some ''https://www.chess.com/register'', anchor_text = ''Register''\<rparr>
       = empty_result sample_source
   \<and> ''https://www.chess.com/register'' \<notin> bucket_links (scrape_page sample_source sample_page)"
proof -
  have m: "\<lparr>anchor_href = Some ''https://drive.google.com/file/d/ABC123/view'',
             anchor_text = ''Download PDF''\<rparr> \<in> set sample_page"
    by (simp add: sample_page_def)
  have i: "str_includes ''https://www.chess.com/register'' ''chess.com/register''"
    by code_simp
  from classification_examples [of sample_page sample_source "''https://www.chess.com/register''"
      "empty_result sample_source" "''Register''"] m i
  show ?thesis by blast
qed

section \<open>The query on the collection\<close>

lemma map_snd_filter_enumerate:
  "map snd (filter (\<lambda>(i, d). P d) (enumerate n xs)) = filter P xs"
  by (induction xs arbitrary: n) simp_all

lemma map_snd_getDocs:
  "map snd (getDocs docs sn yr) = filter (\<lambda>d. season d = sn \<and> year d = yr) docs"
  unfolding getDocs_def by (rule map_snd_filter_enumerate)

lemma getDocs_member:
  "(i, d) \<in> set (getDocs docs sn yr) \<longleftrightarrow>
     i < length docs \<and> d = docs ! i \<and> season d = sn \<and> year d = yr"
  by (auto simp: getDocs_def in_set_enumerate_eq)

lemma distinct_getDocs: "distinct (map fst (getDocs docs sn yr))"
  unfolding getDocs_def by (simp add: distinct_map_filter)

lemma getDocs_empty_iff:
  "getDocs docs sn yr = [] \<longleftrightarrow> \<not> (\<exists>d \<in> set docs. season d = sn \<and> year d = yr)"
proof -
  have "getDocs docs sn yr = [] \<longleftrightarrow> map snd (getDocs docs sn yr) = []" by simp
  also have "\<dots> \<longleftrightarrow> \<not> (\<exists>d \<in> set docs. season d = sn \<and> year d = yr)"
    unfolding map_snd_getDocs by (auto simp: filter_empty_conv)
  finally show ?thesis .
qed

lemma find_filter:
  "List.find P xs = (case filter P xs of [] \<Rightarrow> None | x # _ \<Rightarrow> Some x)"
  by (induction xs) simp_all

lemma getDocs_find:
  "List.find (\<lambda>d. season d = sn \<and> year d = yr) docs =
     (case getDocs docs sn yr of [] \<Rightarrow> None | (i, d) # _ \<Rightarrow> Some d)"
proof -
  have "List.find (\<lambda>d. season d = sn \<and> year d = yr) docs =
     (case map snd (getDocs docs sn yr) of [] \<Rightarrow> None | x # _ \<Rightarrow> Some x)"
    unfolding map_snd_getDocs by (rule find_filter)
  then show ?thesis by (cases "getDocs docs sn yr") auto
qed

lemma getDocs_first:
  assumes "getDocs docs sn yr = (i, d) # rest"
  shows "i < length docs" and "d = docs ! i" and "season d = sn \<and> year d = yr"
    and "\<forall>k < i. \<not> (season (docs ! k) = sn \<and> year (docs ! k) = yr)"
    and "List.find (\<lambda>d. season d = sn \<and> year d = yr) docs = Some d"
proof -
  from assms have "(i, d) \<in> set (getDocs docs sn yr)" by simp
  then show "i < length docs" and "d = docs ! i" and "season d = sn \<and> year d = yr"
    by (auto simp: getDocs_member)
  from assms obtain us vs where
    e: "enumerate 0 docs = us @ (i, d) # vs"
    and n: "\<forall>u \<in> set us. \<not> (\<lambda>(i, d). season d = sn \<and> year d = yr) u"
    unfolding getDocs_def filter_eq_Cons_iff by blast
  have lu: "length us < length docs"
    using arg_cong [OF e, of length] by simp
  have "enumerate 0 docs ! length us = (i, d)"
    unfolding e by simp
  with lu have iu: "i = length us" by (simp add: nth_enumerate_eq)
  show "\<forall>k < i. \<not> (season (docs ! k) = sn \<and> year (docs ! k) = yr)"
  proof (intro allI impI)
    fix k assume k: "k < i"
    with iu have "us ! k = enumerate 0 docs ! k"
      unfolding e by (simp add: nth_append)
    also from k iu lu have "\<dots> = (k, docs ! k)" by (simp add: nth_enumerate_eq)
    finally have "(k, docs ! k) \<in> set us" using k iu by (metis nth_mem)
    with n show "\<not> (season (docs ! k) = sn \<and> year (docs ! k) = yr)" by auto
  qed
  from assms show "List.find (\<lambda>d. season d = sn \<and> year d = yr) docs = Some d"
    by (simp add: getDocs_find)
qed

lemma find_getDocs:
  "List.find (\<lambda>d. season d = sn \<and> year d = yr) docs = Some d \<Longrightarrow>
     \<exists>i rest. getDocs docs sn yr = (i, d) # rest"
  by (auto simp: getDocs_find split: list.splits)

lemmas sample_defs = sample_env_def sample_req_def sample_doc_def sample_source_def

section \<open>The search handler: existing records\<close>

text \<open>
  Claim C1. When the search handler is called (a POST request with both parameters, the
  query on the collection resolving) for a season and year for which the collection has a
  document, the collection is left as it is, nothing is done to the outside world (no
  search, no page fetch, no insert), and the answer has status 200, \<^verbatim>\<open>exists: true\<close>
  and the existing documents of that season and year.
\<close>

theorem search_existing_noop:
  assumes "req_method req = ''POST''" and "req_season req \<noteq> []" and "req_year req \<noteq> []"
    and "getDocs_ok env"
    and "\<exists>d \<in> set docs. season d = req_season req \<and> year d = req_year req"
  shows "run_ccl_search env docs req =
           (docs,
            AlreadyExists (filter (\<lambda>d. season d = req_season req \<and> year d = req_year req) docs),
            [])
         \<and> exists_flag (fst (snd (run_ccl_search env docs req)))
         \<and> status (fst (snd (run_ccl_search env docs req))) = 200"
proof -
  from assms(5) have ne: "getDocs docs (req_season req) (req_year req) \<noteq> []"
    by (simp add: getDocs_empty_iff)
  with assms(1-4) have "run_ccl_search env docs req =
      (docs, AlreadyExists (map snd (getDocs docs (req_season req) (req_year req))), [])"
    by (simp add: run_ccl_search_def Let_def)
  then show ?thesis by (simp add: map_snd_getDocs)
qed

theorem search_existing_noop_witness:
  "run_ccl_search sample_env [sample_doc] sample_req = ([sample_doc], AlreadyExists [sample_doc], [])"
proof -
  have h: "req_method sample_req = ''POST''" "req_season sample_req \<noteq> []" "req_year sample_req \<noteq> []"
    "getDocs_ok sample_env"
    "\<exists>d \<in> set [sample_doc]. season d = req_season sample_req \<and> year d = req_year sample_req"
    by (simp_all add: sample_defs)
  have f: "filter (\<lambda>d. season d = req_season sample_req \<and> year d = req_year sample_req) [sample_doc] = [sample_doc]"
    by (simp add: sample_defs)
  from search_existing_noop [OF h] show ?thesis
    unfolding f by blast
qed

section \<open>The search handler: the saved documents\<close>












section \<open>The link pattern of the upload handler\<close>

lemma until_slash_ident:
  "CHR ''/'' \<notin> set cs \<Longrightarrow> \<forall>c \<in> set cs. \<not> is_line_terminator c \<Longrightarrow>
     until_slash (cs @ CHR ''/'' # rest) = Some cs"
  by (induction cs) auto

lemma lazy_group_ident:
  "ident \<noteq> [] \<Longrightarrow> CHR ''/'' \<notin> set ident \<Longrightarrow> \<forall>c \<in> set ident. \<not> is_line_terminator c \<Longrightarrow>
     lazy_group (ident @ CHR ''/'' # rest) = Some ident"
  by (cases ident) (auto simp: lazy_group_def until_slash_ident)

lemma prefix_append_short:
  "prefix xs (ys @ zs) \<Longrightarrow> length xs \<le> length ys \<Longrightarrow> prefix xs ys"
  by (auto simp: prefix_append)

lemma until_slash_Some: "until_slash s = Some g \<Longrightarrow> prefix (g @ ''/'') s"
  by (induction s arbitrary: g) (auto split: if_splits)

lemma driveIdMatch_skip:
  "\<not> prefix ''/d/'' (c # cs) \<Longrightarrow> driveIdMatch (c # cs) = driveIdMatch cs"
  by (simp only: driveIdMatch.simps if_False option.case)

lemma driveIdMatch_here:
  "lazy_group s = Some g \<Longrightarrow> driveIdMatch (''/d/'' @ s) = Some g"
  by (simp add: prefix_def)

lemma driveIdMatch_first_marker:
  assumes "\<not> sublist ''/d/'' (pre @ ''/d'')" and "ident \<noteq> []" and "CHR ''/'' \<notin> set ident"
    and "\<forall>c \<in> set ident. \<not> is_line_terminator c"
  shows "driveIdMatch (pre @ ''/d/'' @ ident @ ''/'' @ rest) = Some ident"
  using assms(1)
proof (induction pre)
  case Nil
  have "lazy_group (ident @ ''/'' @ rest) = Some ident"
    using lazy_group_ident [OF assms(2-4), of rest] by simp
  then have "driveIdMatch (''/d/'' @ ident @ ''/'' @ rest) = Some ident"
    by (rule driveIdMatch_here)
  then show ?case by (simp only: append_Nil)
next
  case (Cons p ps)
  let ?tail = "''/'' @ ident @ ''/'' @ rest"
  from Cons.prems have np: "\<not> prefix ''/d/'' ((p # ps) @ ''/d'')"
    and ns: "\<not> sublist ''/d/'' (ps @ ''/d'')"
    unfolding append_Cons sublist_Cons_right by blast+
  have "\<not> prefix ''/d/'' (((p # ps) @ ''/d'') @ ?tail)"
  proof
    assume "prefix ''/d/'' (((p # ps) @ ''/d'') @ ?tail)"
    moreover have "length ''/d/'' \<le> length ((p # ps) @ ''/d'')" by simp
    ultimately have "prefix ''/d/'' ((p # ps) @ ''/d'')"
      by (rule prefix_append_short)
    with np show False by contradiction
  qed
  then have "\<not> prefix ''/d/'' (p # (ps @ ''/d/'' @ ident @ ''/'' @ rest))"
    by (simp only: append_assoc append_Cons append_Nil not_False_eq_True)
  then have "driveIdMatch (p # (ps @ ''/d/'' @ ident @ ''/'' @ rest))
             = driveIdMatch (ps @ ''/d/'' @ ident @ ''/'' @ rest)"
    by (rule driveIdMatch_skip)
  with Cons.IH [OF ns] show ?case by (simp only: append_Cons)
qed

lemma lazy_group_nonempty: "lazy_group s = Some g \<Longrightarrow> g \<noteq> []"
  by (auto simp: lazy_group_def split: list.splits if_splits)

lemma driveIdMatch_nonempty: "driveIdMatch s = Some g \<Longrightarrow> g \<noteq> []"
  by (induction s) (auto split: option.splits if_splits dest: lazy_group_nonempty)

lemma lazy_group_Some: "lazy_group s = Some g \<Longrightarrow> prefix (g @ ''/'') s"
  by (cases s) (auto simp: lazy_group_def split: if_splits dest: until_slash_Some)

lemma driveIdMatch_Some: "driveIdMatch s = Some g \<Longrightarrow> sublist (''/d/'' @ g @ ''/'') s"
proof (induction s)
  case Nil
  then show ?case by simp
next
  case (Cons c cs)
  show ?case
  proof (cases "if prefix ''/d/'' (c # cs) then lazy_group (drop 3 (c # cs)) else None")
    case None
    with Cons.prems have "driveIdMatch cs = Some g" by simp
    from Cons.IH [OF this] show ?thesis by (simp add: sublist_Cons_right)
  next
    case (Some g')
    with Cons.prems have g: "g' = g" by simp
    from Some have p: "prefix ''/d/'' (c # cs)" and l: "lazy_group (drop 3 (c # cs)) = Some g'"
      by (simp_all split: if_splits)
    from p obtain r where r: "c # cs = ''/d/'' @ r" by (auto simp: prefix_def)
    with l g have "prefix (g @ ''/'') r" using lazy_group_Some [of r g] by simp
    then obtain r' where "r = (g @ ''/'') @ r'" by (auto simp: prefix_def)
    with r have "c # cs = [] @ (''/d/'' @ g @ ''/'') @ r'" by simp
    then show ?thesis unfolding sublist_def by blast
  qed
qed

lemma driveIdMatch_None: "\<not> sublist ''/d/'' s \<Longrightarrow> driveIdMatch s = None"
proof (rule ccontr)
  assume n: "\<not> sublist ''/d/'' s" and "driveIdMatch s \<noteq> None"
  then obtain g where "driveIdMatch s = Some g" by auto
  then have "sublist (''/d/'' @ g @ ''/'') s" by (rule driveIdMatch_Some)
  then have "sublist ''/d/'' s"
    by (metis sublist_append_rightI sublist_order.order_trans)
  with n show False by contradiction
qed

section \<open>The upload handler: one document, and the loop\<close>

lemma process_document_archived:
  "pdfStorageUrl d \<noteq> [] \<Longrightarrow>
     process_document env sn yr (docs, uds, log) (i, d) =
       (docs, uds @ [\<lparr>doc_id = i, storageUrl = pdfStorageUrl d, already_exists = True\<rparr>], log)"
  by (simp add: process_document_def)

lemma process_document_no_link:
  "pdf d = [] \<Longrightarrow> pdfStorageUrl d = [] \<Longrightarrow>
     process_document env sn yr (docs, uds, log) (i, d) = (docs, uds, log)"
  by (simp add: process_document_def)

lemma process_document_no_match:
  "pdfStorageUrl d = [] \<Longrightarrow> driveIdMatch (pdf d) = None \<Longrightarrow>
     process_document env sn yr (docs, uds, log) (i, d) = (docs, uds, log)"
  by (simp add: process_document_def)

lemma process_document_match:
  assumes "pdf d \<noteq> []" and "pdfStorageUrl d = []" and "driveIdMatch (pdf d) = Some fileId"
  shows "\<exists>docs' uds' extra.
           process_document env sn yr (docs, uds, log) (i, d)
             = (docs', uds', log @ FetchPdf (downloadUrl fileId) # extra)
           \<and> (extra = [] \<or> extra = [Upload i (fileName sn yr (date_now env i))]
               \<or> extra = [Upload i (fileName sn yr (date_now env i)), Update i])
           \<and> (Update i \<notin> set extra \<longrightarrow> docs' = docs \<and> uds' = uds)
           \<and> (Update i \<in> set extra \<longrightarrow>
                 (\<exists>u. getDownloadURL env (fileName sn yr (date_now env i)) = Some u
                   \<and> docs' = docs[i := (docs ! i)\<lparr>pdfStorageUrl := u\<rparr>]
                   \<and> uds' = uds @ [\<lparr>doc_id = i, storageUrl = u, already_exists = False\<rparr>]))"
proof -
  from assms(3) have "fileId \<noteq> []" by (rule driveIdMatch_nonempty)
  with assms show ?thesis
    by (auto simp: process_document_def Let_def split: outcome.splits option.splits)
qed

text \<open>The shape of one step, whatever the document.\<close>

lemma process_document_step:
  "\<exists>docs' uds' extra.
     process_document env sn yr (docs, uds, log) (i, d) = (docs', uds', log @ extra)
     \<and> length docs' = length docs
     \<and> (\<forall>j. j \<noteq> i \<longrightarrow> docs' ! j = docs ! j)
     \<and> (\<forall>e \<in> set extra. (\<exists>u. e = FetchPdf u) \<or> (\<exists>n. e = Upload i n) \<or> e = Update i)
     \<and> (pdfStorageUrl d \<noteq> [] \<longrightarrow> extra = [] \<and> docs' = docs)
     \<and> (Update i \<in> set extra \<longrightarrow> i < length docs \<longrightarrow>
           (\<exists>n. getDownloadURL env n = Some (pdfStorageUrl (docs' ! i))))
     \<and> set uds \<subseteq> set uds'
     \<and> (pdfStorageUrl d \<noteq> [] \<longrightarrow>
           \<lparr>doc_id = i, storageUrl = pdfStorageUrl d, already_exists = True\<rparr> \<in> set uds')"
proof (cases "pdfStorageUrl d = []")
  case False
  then show ?thesis by (auto simp: process_document_archived)
next
  case empty: True
  show ?thesis
  proof (cases "pdf d = []")
    case True
    with empty show ?thesis by (simp add: process_document_no_link)
  next
    case link: False
    show ?thesis
    proof (cases "driveIdMatch (pdf d)")
      case None
      with empty show ?thesis by (simp add: process_document_no_match)
    next
      case (Some fileId)
      from process_document_match [OF link empty Some, of env sn yr docs uds log i]
      obtain docs' uds' extra where
        p: "process_document env sn yr (docs, uds, log) (i, d)
              = (docs', uds', log @ FetchPdf (downloadUrl fileId) # extra)"
        and e: "extra = [] \<or> extra = [Upload i (fileName sn yr (date_now env i))]
               \<or> extra = [Upload i (fileName sn yr (date_now env i)), Update i]"
        and n: "Update i \<notin> set extra \<longrightarrow> docs' = docs \<and> uds' = uds"
        and u: "Update i \<in> set extra \<longrightarrow>
                 (\<exists>u. getDownloadURL env (fileName sn yr (date_now env i)) = Some u
                   \<and> docs' = docs[i := (docs ! i)\<lparr>pdfStorageUrl := u\<rparr>]
                   \<and> uds' = uds @ [\<lparr>doc_id = i, storageUrl = u, already_exists = False\<rparr>])"
        by blast
      from e n u have "length docs' = length docs" by auto
      moreover from e n u have "\<forall>j. j \<noteq> i \<longrightarrow> docs' ! j = docs ! j" by auto
      moreover from e have "\<forall>e \<in> set (FetchPdf (downloadUrl fileId) # extra).
           (\<exists>u. e = FetchPdf u) \<or> (\<exists>n. e = Upload i n) \<or> e = Update i" by auto
      moreover from e n u have "Update i \<in> set (FetchPdf (downloadUrl fileId) # extra) \<longrightarrow> i < length docs \<longrightarrow>
           (\<exists>n. getDownloadURL env n = Some (pdfStorageUrl (docs' ! i)))" by auto
      moreover from e n u have "set uds \<subseteq> set uds'" by auto
      ultimately show ?thesis using p empty by blast
    qed
  qed
qed

lemma process_loop:
  "foldl (process_document env sn yr) (docs, uds, log) snap = (docs', uds', log') \<Longrightarrow>
     \<exists>extra. log' = log @ extra
       \<and> length docs' = length docs
       \<and> (\<forall>j. docs' ! j \<noteq> docs ! j \<longrightarrow> (\<exists>d. (j, d) \<in> set snap \<and> pdfStorageUrl d = []))
       \<and> (\<forall>e \<in> set extra. (\<exists>u. e = FetchPdf u)
             \<or> (\<exists>j n d. e = Upload j n \<and> (j, d) \<in> set snap \<and> pdfStorageUrl d = [])
             \<or> (\<exists>j d. e = Update j \<and> (j, d) \<in> set snap \<and> pdfStorageUrl d = []))
       \<and> set uds \<subseteq> set uds'
       \<and> (\<forall>j d. (j, d) \<in> set snap \<and> pdfStorageUrl d \<noteq> [] \<longrightarrow>
             \<lparr>doc_id = j, storageUrl = pdfStorageUrl d, already_exists = True\<rparr> \<in> set uds')"
proof (induction snap arbitrary: docs uds log)
  case Nil
  then show ?case by simp
next
  case (Cons x xs)
  obtain i d where x: "x = (i, d)" by (cases x)
  from process_document_step [of env sn yr docs uds log i d]
  obtain docs1 uds1 extra1 where
    p: "process_document env sn yr (docs, uds, log) (i, d) = (docs1, uds1, log @ extra1)"
    and len: "length docs1 = length docs"
    and frame: "\<forall>j. j \<noteq> i \<longrightarrow> docs1 ! j = docs ! j"
    and ev: "\<forall>e \<in> set extra1. (\<exists>u. e = FetchPdf u) \<or> (\<exists>n. e = Upload i n) \<or> e = Update i"
    and arch: "pdfStorageUrl d \<noteq> [] \<longrightarrow> extra1 = [] \<and> docs1 = docs"
    and sub: "set uds \<subseteq> set uds1"
    and rep: "pdfStorageUrl d \<noteq> [] \<longrightarrow>
           \<lparr>doc_id = i, storageUrl = pdfStorageUrl d, already_exists = True\<rparr> \<in> set uds1"
    by blast
  from Cons.prems x p have
    "foldl (process_document env sn yr) (docs1, uds1, log @ extra1) xs = (docs', uds', log')"
    by simp
  from Cons.IH [OF this] obtain extra2 where
    l2: "log' = (log @ extra1) @ extra2"
    and len2: "length docs' = length docs1"
    and ch2: "\<forall>j. docs' ! j \<noteq> docs1 ! j \<longrightarrow> (\<exists>d. (j, d) \<in> set xs \<and> pdfStorageUrl d = [])"
    and ev2: "\<forall>e \<in> set extra2. (\<exists>u. e = FetchPdf u)
             \<or> (\<exists>j n d. e = Upload j n \<and> (j, d) \<in> set xs \<and> pdfStorageUrl d = [])
             \<or> (\<exists>j d. e = Update j \<and> (j, d) \<in> set xs \<and> pdfStorageUrl d = [])"
    and sub2: "set uds1 \<subseteq> set uds'"
    and rep2: "\<forall>j d. (j, d) \<in> set xs \<and> pdfStorageUrl d \<noteq> [] \<longrightarrow>
             \<lparr>doc_id = j, storageUrl = pdfStorageUrl d, already_exists = True\<rparr> \<in> set uds'"
    by blast
  have a: "log' = log @ (extra1 @ extra2)" using l2 by simp
  have b: "length docs' = length docs" using len len2 by simp
  have c: "\<forall>j. docs' ! j \<noteq> docs ! j \<longrightarrow> (\<exists>d. (j, d) \<in> set (x # xs) \<and> pdfStorageUrl d = [])"
  proof (intro allI impI)
    fix j assume ne: "docs' ! j \<noteq> docs ! j"
    show "\<exists>d. (j, d) \<in> set (x # xs) \<and> pdfStorageUrl d = []"
    proof (cases "docs' ! j = docs1 ! j")
      case True
      with ne have "docs1 ! j \<noteq> docs ! j" by simp
      with frame arch have "j = i \<and> pdfStorageUrl d = []" by metis
      with x show ?thesis by auto
    next
      case False
      with ch2 show ?thesis by auto
    qed
  qed
  have d: "\<forall>e \<in> set (extra1 @ extra2). (\<exists>u. e = FetchPdf u)
             \<or> (\<exists>j n d. e = Upload j n \<and> (j, d) \<in> set (x # xs) \<and> pdfStorageUrl d = [])
             \<or> (\<exists>j d. e = Update j \<and> (j, d) \<in> set (x # xs) \<and> pdfStorageUrl d = [])"
  proof
    fix e assume "e \<in> set (extra1 @ extra2)"
    then consider "e \<in> set extra1" | "e \<in> set extra2" by auto
    then show "(\<exists>u. e = FetchPdf u)
             \<or> (\<exists>j n d. e = Upload j n \<and> (j, d) \<in> set (x # xs) \<and> pdfStorageUrl d = [])
             \<or> (\<exists>j d. e = Update j \<and> (j, d) \<in> set (x # xs) \<and> pdfStorageUrl d = [])"
    proof cases
      case 1
      with arch have "pdfStorageUrl d = []" by auto
      with 1 ev x show ?thesis by fastforce
    next
      case 2
      with ev2 show ?thesis by fastforce
    qed
  qed
  have e: "set uds \<subseteq> set uds'" using sub sub2 by blast
  have f: "\<forall>j d. (j, d) \<in> set (x # xs) \<and> pdfStorageUrl d \<noteq> [] \<longrightarrow>
             \<lparr>doc_id = j, storageUrl = pdfStorageUrl d, already_exists = True\<rparr> \<in> set uds'"
    using rep rep2 sub2 x by auto
  from a b c d e f show ?case by blast
qed

lemma process_loop_update:
  "foldl (process_document env sn yr) (docs, uds, log) snap = (docs', uds', log') \<Longrightarrow>
     distinct (map fst snap) \<Longrightarrow> Update j \<in> set log' \<Longrightarrow> Update j \<notin> set log \<Longrightarrow>
     j < length docs \<Longrightarrow>
     \<exists>n. getDownloadURL env n = Some (pdfStorageUrl (docs' ! j))"
proof (induction snap arbitrary: docs uds log)
  case Nil
  then show ?case by simp
next
  case (Cons x xs)
  obtain i d where x: "x = (i, d)" by (cases x)
  from process_document_step [of env sn yr docs uds log i d]
  obtain docs1 uds1 extra1 where
    p: "process_document env sn yr (docs, uds, log) (i, d) = (docs1, uds1, log @ extra1)"
    and len: "length docs1 = length docs"
    and ev: "\<forall>e \<in> set extra1. (\<exists>u. e = FetchPdf u) \<or> (\<exists>n. e = Upload i n) \<or> e = Update i"
    and upd: "Update i \<in> set extra1 \<longrightarrow> i < length docs \<longrightarrow>
           (\<exists>n. getDownloadURL env n = Some (pdfStorageUrl (docs1 ! i)))"
    by blast
  from Cons.prems(1) x p have
    rest: "foldl (process_document env sn yr) (docs1, uds1, log @ extra1) xs = (docs', uds', log')"
    by simp
  from Cons.prems(2) x have dist: "distinct (map fst xs)" and fresh: "i \<notin> fst ` set xs"
    by simp_all
  show ?case
  proof (cases "Update j \<in> set extra1")
    case True
    with ev have ji: "j = i" by auto
    with True upd Cons.prems(5)
    obtain n where n: "getDownloadURL env n = Some (pdfStorageUrl (docs1 ! i))" by blast
    from process_loop [OF rest] have
      "\<forall>k. docs' ! k \<noteq> docs1 ! k \<longrightarrow> (\<exists>d. (k, d) \<in> set xs \<and> pdfStorageUrl d = [])"
      by blast
    with fresh have "docs' ! i = docs1 ! i" by force
    with n ji show ?thesis by auto
  next
    case False
    with Cons.prems(4) have "Update j \<notin> set (log @ extra1)" by simp
    from Cons.IH [OF rest dist Cons.prems(3) this] Cons.prems(5) len show ?thesis by simp
  qed
qed

text \<open>The handler, when it reaches the loop.\<close>

lemma upload_ccl_pdf_loop:
  assumes "upload_ccl_pdf env docs req = (docs', resp, log)" and "log \<noteq> [] \<or> docs' \<noteq> docs \<or> (\<exists>uds. resp = PdfProcessed uds)"
  shows "\<exists>uds. resp = PdfProcessed uds
           \<and> foldl (process_document env (req_season req) (req_year req)) (docs, [], [])
                (getDocs docs (req_season req) (req_year req)) = (docs', uds, log)"
  using assms
  by (auto simp: upload_ccl_pdf_def Let_def split: if_splits prod.splits)

lemma upload_ccl_pdf_reaches:
  assumes "req_method req = ''POST''" and "req_season req \<noteq> []" and "req_year req \<noteq> []"
    and "getDocs_ok env" and "getDocs docs (req_season req) (req_year req) \<noteq> []"
  shows "\<exists>docs' uds log. upload_ccl_pdf env docs req = (docs', PdfProcessed uds, log)"
  using assms
  by (auto simp: upload_ccl_pdf_def Let_def split: prod.splits)

lemma upload_archived_untouched:
  assumes call: "upload_ccl_pdf env docs req = (docs', resp, log)"
    and url: "pdfStorageUrl (docs ! i) \<noteq> []"
  shows "docs' ! i = docs ! i" and "Upload i n \<notin> set log" and "Update i \<notin> set log"
proof -
  have *: "docs' ! i = docs ! i \<and> Upload i n \<notin> set log \<and> Update i \<notin> set log"
  proof (cases "log \<noteq> [] \<or> docs' \<noteq> docs \<or> (\<exists>uds. resp = PdfProcessed uds)")
    case False
    then show ?thesis by simp
  next
    case True
    from upload_ccl_pdf_loop [OF call True] obtain uds where
      f: "foldl (process_document env (req_season req) (req_year req)) (docs, [], [])
            (getDocs docs (req_season req) (req_year req)) = (docs', uds, log)"
      by blast
    from process_loop [OF f] have
      ch: "\<forall>j. docs' ! j \<noteq> docs ! j \<longrightarrow>
             (\<exists>d. (j, d) \<in> set (getDocs docs (req_season req) (req_year req)) \<and> pdfStorageUrl d = [])"
      and ev: "\<forall>e \<in> set log. (\<exists>u. e = FetchPdf u)
             \<or> (\<exists>j n d. e = Upload j n \<and> (j, d) \<in> set (getDocs docs (req_season req) (req_year req))
                   \<and> pdfStorageUrl d = [])
             \<or> (\<exists>j d. e = Update j \<and> (j, d) \<in> set (getDocs docs (req_season req) (req_year req))
                   \<and> pdfStorageUrl d = [])"
      by auto
    have no: "\<not> (\<exists>d. (i, d) \<in> set (getDocs docs (req_season req) (req_year req)) \<and> pdfStorageUrl d = [])"
      using url by (auto simp: getDocs_member)
    from ch no have a: "docs' ! i = docs ! i" by blast
    from ev no have b: "Upload i n \<notin> set log" by fastforce
    from ev no have c: "Update i \<notin> set log" by fastforce
    from a b c show ?thesis by blast
  qed
  from * show "docs' ! i = docs ! i" and "Upload i n \<notin> set log" and "Update i \<notin> set log"
    by blast+
qed

lemma upload_archived_reported:
  assumes call: "upload_ccl_pdf env docs req = (docs', PdfProcessed uds, log)"
    and i: "i < length docs" and url: "pdfStorageUrl (docs ! i) \<noteq> []"
    and key: "season (docs ! i) = req_season req" "year (docs ! i) = req_year req"
  shows "\<lparr>doc_id = i, storageUrl = pdfStorageUrl (docs ! i), already_exists = True\<rparr> \<in> set uds"
proof -
  from upload_ccl_pdf_loop [OF call] obtain uds' where
    "PdfProcessed uds = PdfProcessed uds'"
    and f: "foldl (process_document env (req_season req) (req_year req)) (docs, [], [])
            (getDocs docs (req_season req) (req_year req)) = (docs', uds', log)"
    by blast
  then have f': "foldl (process_document env (req_season req) (req_year req)) (docs, [], [])
            (getDocs docs (req_season req) (req_year req)) = (docs', uds, log)"
    by simp
  from i key have "(i, docs ! i) \<in> set (getDocs docs (req_season req) (req_year req))"
    by (simp add: getDocs_member)
  with process_loop [OF f'] url show ?thesis by blast
qed

lemma upload_update_stores_url:
  assumes call: "upload_ccl_pdf env docs req = (docs', resp, log)" and u: "Update i \<in> set log"
  shows "i < length docs' \<and> (\<exists>n. getDownloadURL env n = Some (pdfStorageUrl (docs' ! i)))"
proof -
  from u have "log \<noteq> []" by auto
  with upload_ccl_pdf_loop [OF call] obtain uds where
    f: "foldl (process_document env (req_season req) (req_year req)) (docs, [], [])
            (getDocs docs (req_season req) (req_year req)) = (docs', uds, log)"
    by blast
  from process_loop [OF f] u have
    "\<exists>d. (i, d) \<in> set (getDocs docs (req_season req) (req_year req))" and len: "length docs' = length docs"
    by fastforce+
  then have i: "i < length docs" by (auto simp: getDocs_member)
  from process_loop_update [OF f distinct_getDocs u _ i]
  have "\<exists>n. getDownloadURL env n = Some (pdfStorageUrl (docs' ! i))" by simp
  with i len show ?thesis by simp
qed

section \<open>The scenario, evaluated\<close>

lemma sample_env_fields:
  "getDocs_ok sample_env"
  "updateDoc_ok sample_env i"
  "fetch_pdf sample_env u = Ok ''%PDF-1.7''"
  "date_now sample_env i = 1730000000123"
  "uploadBytes_ok sample_env n"
  "getDownloadURL sample_env n = Some (''https://storage.example/'' @ n)"
  "pdf_text sample_env b = Some ''Rules of the league''"
  "llm_invoke sample_env p = Some sample_content"
  "JSON_parse sample_env ''{}'' = Some (JObject [])"
  by (simp_all add: sample_env_def)

lemma env_update_fails_fields:
  "getDocs_ok env_update_fails"
  "\<not> updateDoc_ok env_update_fails i"
  "fetch_pdf env_update_fails u = Ok ''%PDF-1.7''"
  "date_now env_update_fails i = 1730000000123"
  "uploadBytes_ok env_update_fails n"
  "getDownloadURL env_update_fails n = Some (''https://storage.example/'' @ n)"
  by (simp_all add: env_update_fails_def sample_env_def)

lemma env_update_fails_later_fields:
  "getDocs_ok env_update_fails_later"
  "\<not> updateDoc_ok env_update_fails_later i"
  "fetch_pdf env_update_fails_later u = Ok ''%PDF-1.7''"
  "date_now env_update_fails_later i = 1730000005000"
  "uploadBytes_ok env_update_fails_later n"
  "getDownloadURL env_update_fails_later n = Some (''https://storage.example/'' @ n)"
  by (simp_all add: env_update_fails_later_def env_update_fails_def sample_env_def)

lemma env_not_json_fields:
  "getDocs_ok env_not_json"
  "fetch_pdf env_not_json u = Ok ''%PDF-1.7''"
  "pdf_text env_not_json b = Some ''Rules of the league''"
  "llm_invoke env_not_json p = Some ''I could not find the dates.''"
  "JSON_parse env_not_json ''I could not find the dates.'' = None"
  by (simp_all add: env_not_json_def sample_env_def)

lemma sample_req_fields:
  "req_method sample_req = ''POST''" "req_season sample_req = ''spring''"
  "req_year sample_req = ''2026''"
  by (simp_all add: sample_req_def)

lemma sample_doc_fields:
  "season sample_doc = ''spring''" "year sample_doc = ''2026''"
  "pdf sample_doc = ''https://drive.google.com/file/d/ABC123/view''"
  "pdfStorageUrl sample_doc = []"
  by (simp_all add: sample_doc_def)

lemma archived_doc_fields:
  "season archived_doc = ''spring''" "year archived_doc = ''2026''"
  "pdfStorageUrl archived_doc = sample_storage_url" "sample_storage_url \<noteq> []"
  by (simp_all add: archived_doc_def sample_doc_def sample_storage_url_def)

lemma plain_doc_fields:
  "season plain_doc = ''spring''" "year plain_doc = ''2026''"
  "pdf plain_doc = ''https://example.com/rules.pdf''"
  "pdfStorageUrl plain_doc = []"
  by (simp_all add: plain_doc_def sample_doc_def)

lemma sample_drive_id:
  "driveIdMatch ''https://drive.google.com/file/d/ABC123/view'' = Some ''ABC123''"
  "driveIdMatch ''https://example.com/rules.pdf'' = None"
  by code_simp+

lemma sample_file_names:
  "fileName ''spring'' ''2026'' 1730000000123 = ''ccl/spring/2026/1730000000123_ccl_spring_2026.pdf''"
  "fileName ''spring'' ''2026'' 1730000005000 = ''ccl/spring/2026/1730000005000_ccl_spring_2026.pdf''"
  by (simp_all add: fileName_def string_of_nat.simps)

lemma sample_clean_content:
  "clean_content sample_content = ''{}''"
  "clean_content ''I could not find the dates.'' = ''I could not find the dates.''"
  by code_simp+

lemma sample_snapshots:
  "getDocs [sample_doc] ''spring'' ''2026'' = [(0, sample_doc)]"
  "getDocs [archived_doc] ''spring'' ''2026'' = [(0, archived_doc)]"
  "getDocs [plain_doc] ''spring'' ''2026'' = [(0, plain_doc)]"
  "getDocs [archived_doc, sample_doc] ''spring'' ''2026'' = [(0, archived_doc), (1, sample_doc)]"
  by (simp_all add: getDocs_def sample_doc_fields archived_doc_fields plain_doc_fields)

lemma sample_process:
  "process_document sample_env ''spring'' ''2026'' ([sample_doc], [], []) (0, sample_doc) =
     ([archived_doc],
      [\<lparr>doc_id = 0, storageUrl = sample_storage_url, already_exists = False\<rparr>],
      [FetchPdf ''https://drive.google.com/uc?export=download&id=ABC123'',
       Upload 0 ''ccl/spring/2026/1730000000123_ccl_spring_2026.pdf'', Update 0])"
  by (simp add: process_document_def sample_doc_fields sample_drive_id
      sample_env_fields sample_file_names downloadUrl_def Let_def archived_doc_def
      sample_storage_url_def del: driveIdMatch.simps)

lemma sample_process_update_fails:
  "process_document env_update_fails ''spring'' ''2026'' ([sample_doc], [], []) (0, sample_doc) =
     ([sample_doc], [],
      [FetchPdf ''https://drive.google.com/uc?export=download&id=ABC123'',
       Upload 0 ''ccl/spring/2026/1730000000123_ccl_spring_2026.pdf''])"
  by (simp add: process_document_def sample_doc_fields sample_drive_id
      env_update_fails_fields sample_file_names downloadUrl_def Let_def
      del: driveIdMatch.simps)

lemma sample_process_update_fails_later:
  "process_document env_update_fails_later ''spring'' ''2026'' ([sample_doc], [], []) (0, sample_doc) =
     ([sample_doc], [],
      [FetchPdf ''https://drive.google.com/uc?export=download&id=ABC123'',
       Upload 0 ''ccl/spring/2026/1730000005000_ccl_spring_2026.pdf''])"
  by (simp add: process_document_def sample_doc_fields sample_drive_id
      env_update_fails_later_fields sample_file_names downloadUrl_def Let_def
      del: driveIdMatch.simps)

lemmas upload_eval =
  upload_ccl_pdf_def sample_req_fields sample_snapshots Let_def

lemma sample_upload:
  "upload_ccl_pdf sample_env [sample_doc] sample_req =
     ([archived_doc],
      PdfProcessed [\<lparr>doc_id = 0, storageUrl = sample_storage_url, already_exists = False\<rparr>],
      [FetchPdf ''https://drive.google.com/uc?export=download&id=ABC123'',
       Upload 0 ''ccl/spring/2026/1730000000123_ccl_spring_2026.pdf'', Update 0])"
  by (simp add: upload_eval sample_env_fields sample_process)

lemma sample_upload_again:
  "upload_ccl_pdf sample_env [archived_doc] sample_req =
     ([archived_doc],
      PdfProcessed [\<lparr>doc_id = 0, storageUrl = sample_storage_url, already_exists = True\<rparr>],
      [])"
  by (simp add: upload_eval sample_env_fields process_document_archived archived_doc_fields)

lemma sample_extract:
  "extract_ccl_info sample_env [archived_doc, sample_doc] sample_req =
       ([archived_doc\<lparr>tournamentInfo := Some (JObject [])\<rparr>, sample_doc],
        Extracted (JObject []),
        [FetchPdf sample_storage_url, Invoke (extraction_prompt ''Rules of the league''), Update 0])"
  by (simp add: extract_ccl_info_def sample_req_fields sample_snapshots Let_def
      sample_env_fields archived_doc_fields sample_clean_content)

section \<open>The upload handler: link resolution\<close>

text \<open>
  Claim C8, as stated, fails for a link in which \<^verbatim>\<open>/d/\<close> occurs before the marker of
  the file identifier: the pattern takes the leftmost match. The link below has the
  identifier \<^verbatim>\<open>XYZ789\<close> between \<^verbatim>\<open>/d/\<close> and a slash, and the handler fetches and
  archives \<^verbatim>\<open>id=u\<close>.
\<close>

theorem drive_link_counterexample:
  "sublist ''/d/XYZ789/'' (pdf two_marker_doc)
   \<and> pdfStorageUrl two_marker_doc = []
   \<and> driveIdMatch (pdf two_marker_doc) = Some ''u''
   \<and> upload_ccl_pdf sample_env [two_marker_doc] sample_req =
       ([two_marker_doc\<lparr>pdfStorageUrl := sample_storage_url\<rparr>],
        PdfProcessed [\<lparr>doc_id = 0, storageUrl = sample_storage_url, already_exists = False\<rparr>],
        [FetchPdf ''https://drive.google.com/uc?export=download&id=u'',
         Upload 0 ''ccl/spring/2026/1730000000123_ccl_spring_2026.pdf'', Update 0])
   \<and> \<not> sublist ''id=XYZ789'' ''https://drive.google.com/uc?export=download&id=u''"
proof -
  have f: "season two_marker_doc = ''spring''" "year two_marker_doc = ''2026''"
    "pdf two_marker_doc = ''https://drive.google.com/d/u/0/file/d/XYZ789/view?usp=sharing''"
    "pdfStorageUrl two_marker_doc = []"
    by (simp_all add: two_marker_doc_def sample_doc_def)
  have a: "sublist ''/d/XYZ789/'' ''https://drive.google.com/d/u/0/file/d/XYZ789/view?usp=sharing''"
    by code_simp
  have m: "driveIdMatch ''https://drive.google.com/d/u/0/file/d/XYZ789/view?usp=sharing'' = Some ''u''"
    by code_simp
  have n: "\<not> sublist ''id=XYZ789'' ''https://drive.google.com/uc?export=download&id=u''"
    by code_simp
  have q: "getDocs [two_marker_doc] ''spring'' ''2026'' = [(0, two_marker_doc)]"
    by (simp add: getDocs_def f)
  have p: "process_document sample_env ''spring'' ''2026'' ([two_marker_doc], [], [])
             (0, two_marker_doc) =
       ([two_marker_doc\<lparr>pdfStorageUrl := sample_storage_url\<rparr>],
        [\<lparr>doc_id = 0, storageUrl = sample_storage_url, already_exists = False\<rparr>],
        [FetchPdf ''https://drive.google.com/uc?export=download&id=u'',
         Upload 0 ''ccl/spring/2026/1730000000123_ccl_spring_2026.pdf'', Update 0])"
    by (simp add: process_document_def f m sample_env_fields sample_file_names downloadUrl_def
        Let_def sample_storage_url_def del: driveIdMatch.simps)
  have h: "upload_ccl_pdf sample_env [two_marker_doc] sample_req =
       ([two_marker_doc\<lparr>pdfStorageUrl := sample_storage_url\<rparr>],
        PdfProcessed [\<lparr>doc_id = 0, storageUrl = sample_storage_url, already_exists = False\<rparr>],
        [FetchPdf ''https://drive.google.com/uc?export=download&id=u'',
         Upload 0 ''ccl/spring/2026/1730000000123_ccl_spring_2026.pdf'', Update 0])"
    by (simp add: upload_ccl_pdf_def sample_req_fields sample_env_fields q p Let_def)
  from a m n h f(3,4) show ?thesis by simp
qed

text \<open>
  Claim C8, amended. A link in which the marker \<^verbatim>\<open>/d/\<close> occurs for the first time in
  front of a file identifier (not empty, without slash or line terminator) that is followed
  by a slash: the pattern of the upload handler extracts exactly that identifier, the
  download URL is \<^verbatim>\<open>https://drive.google.com/uc?export=download&id=\<close> followed by it,
  and for a document with that link and no archived copy the handler issues its fetch at
  that URL.
\<close>

theorem drive_link_resolves:
  assumes "\<not> sublist ''/d/'' (pre @ ''/d'')" and "ident \<noteq> []" and "CHR ''/'' \<notin> set ident"
    and "\<forall>c \<in> set ident. \<not> is_line_terminator c"
    and "pdf d = pre @ ''/d/'' @ ident @ ''/'' @ rest" and "pdfStorageUrl d = []"
  shows "driveIdMatch (pdf d) = Some ident
         \<and> downloadUrl ident = ''https://drive.google.com/uc?export=download&id='' @ ident
         \<and> (\<exists>docs' uds' extra.
               process_document env sn yr (docs, uds, log) (i, d)
                 = (docs', uds', log @ FetchPdf (downloadUrl ident) # extra))"
proof -
  from assms(5) driveIdMatch_first_marker [OF assms(1-4), of rest]
  have m: "driveIdMatch (pdf d) = Some ident" by simp
  from assms(5) have l: "pdf d \<noteq> []" by simp
  from process_document_match [OF l assms(6) m, of env sn yr docs uds log i]
  have "\<exists>docs' uds' extra.
               process_document env sn yr (docs, uds, log) (i, d)
                 = (docs', uds', log @ FetchPdf (downloadUrl ident) # extra)"
    by blast
  with m show ?thesis by (simp add: downloadUrl_def)
qed

theorem drive_link_resolves_witness:
  "\<not> sublist ''/d/'' (''https://drive.google.com/file'' @ ''/d'')
   \<and> pdf viewer_doc = ''https://drive.google.com/file'' @ ''/d/'' @ ''XYZ789'' @ ''/'' @ ''view?usp=sharing''
   \<and> driveIdMatch (pdf viewer_doc) = Some ''XYZ789''
   \<and> downloadUrl ''XYZ789'' = ''https://drive.google.com/uc?export=download&id=XYZ789''
   \<and> (\<exists>docs' uds' extra.
         process_document sample_env ''spring'' ''2026'' ([viewer_doc], [], []) (0, viewer_doc)
           = (docs', uds', FetchPdf ''https://drive.google.com/uc?export=download&id=XYZ789'' # extra))"
proof -
  have a: "\<not> sublist ''/d/'' (''https://drive.google.com/file'' @ ''/d'')"
    by code_simp
  have b: "''XYZ789'' \<noteq> []" "CHR ''/'' \<notin> set ''XYZ789''"
    "\<forall>c \<in> set ''XYZ789''. \<not> is_line_terminator c"
    by (simp_all add: is_line_terminator_def)
  have c: "pdf viewer_doc = ''https://drive.google.com/file'' @ ''/d/'' @ ''XYZ789'' @ ''/'' @ ''view?usp=sharing''"
    "pdfStorageUrl viewer_doc = []"
    by (simp_all add: viewer_doc_def sample_doc_def)
  have d: "downloadUrl ''XYZ789'' = ''https://drive.google.com/uc?export=download&id=XYZ789''"
    by (simp add: downloadUrl_def)
  from drive_link_resolves [OF a b c, of sample_env "''spring''" "''2026''" "[viewer_doc]" "[]" "[]" 0]
  have "driveIdMatch (pdf viewer_doc) = Some ''XYZ789''
        \<and> (\<exists>docs' uds' extra.
         process_document sample_env ''spring'' ''2026'' ([viewer_doc], [], []) (0, viewer_doc)
           = (docs', uds', [] @ FetchPdf (downloadUrl ''XYZ789'') # extra))"
    by blast
  with a c(1) d show ?thesis by simp
qed

text \<open>
  Claim C4, as stated, fails: a document whose link is a plain \<^verbatim>\<open>.pdf\<close> URL is not
  fetched at all, although the URL could be fetched; the handler answers with an empty
  \<^verbatim>\<open>updatedDocs\<close> and the document stays without archived copy.
\<close>

theorem plain_link_counterexample:
  "pdf plain_doc = ''https://example.com/rules.pdf''
   \<and> pdfStorageUrl plain_doc = []
   \<and> fetch_pdf sample_env (pdf plain_doc) = Ok ''%PDF-1.7''
   \<and> upload_ccl_pdf sample_env [plain_doc] sample_req = ([plain_doc], PdfProcessed [], [])"
  by (simp add: upload_eval sample_env_fields plain_doc_fields process_document_no_match
      sample_drive_id del: driveIdMatch.simps)

text \<open>
  Claim C4, amended. For a document with a link and no archived copy: if the pattern
  matches, the link contains \<^verbatim>\<open>/d/\<close>, the identifier and a slash, and exactly one fetch
  is issued, at the direct-download URL of the identifier; if the pattern does not match
  (in particular when the link does not contain \<^verbatim>\<open>/d/\<close>), the document is skipped:
  no fetch, no upload, no update, no entry in \<^verbatim>\<open>updatedDocs\<close>.
\<close>

theorem link_resolution:
  assumes "pdf d \<noteq> []" and "pdfStorageUrl d = []"
  shows "(\<forall>fileId. driveIdMatch (pdf d) = Some fileId \<longrightarrow>
            sublist (''/d/'' @ fileId @ ''/'') (pdf d)
            \<and> (\<exists>docs' uds' extra.
                  process_document env sn yr (docs, uds, log) (i, d)
                    = (docs', uds', log @ FetchPdf (downloadUrl fileId) # extra)
                  \<and> (\<forall>u. FetchPdf u \<notin> set extra)))
         \<and> (driveIdMatch (pdf d) = None \<longrightarrow>
              process_document env sn yr (docs, uds, log) (i, d) = (docs, uds, log))
         \<and> (\<not> sublist ''/d/'' (pdf d) \<longrightarrow> driveIdMatch (pdf d) = None)"
proof -
  have one: "\<forall>fileId. driveIdMatch (pdf d) = Some fileId \<longrightarrow>
            sublist (''/d/'' @ fileId @ ''/'') (pdf d)
            \<and> (\<exists>docs' uds' extra.
                  process_document env sn yr (docs, uds, log) (i, d)
                    = (docs', uds', log @ FetchPdf (downloadUrl fileId) # extra)
                  \<and> (\<forall>u. FetchPdf u \<notin> set extra))"
  proof (intro allI impI)
    fix fileId assume m: "driveIdMatch (pdf d) = Some fileId"
    from process_document_match [OF assms m, of env sn yr docs uds log i]
    obtain docs' uds' extra where
      "process_document env sn yr (docs, uds, log) (i, d)
             = (docs', uds', log @ FetchPdf (downloadUrl fileId) # extra)"
      and "extra = [] \<or> extra = [Upload i (fileName sn yr (date_now env i))]
               \<or> extra = [Upload i (fileName sn yr (date_now env i)), Update i]"
      by blast
    then have "\<exists>docs' uds' extra.
                  process_document env sn yr (docs, uds, log) (i, d)
                    = (docs', uds', log @ FetchPdf (downloadUrl fileId) # extra)
                  \<and> (\<forall>u. FetchPdf u \<notin> set extra)"
      by auto
    with driveIdMatch_Some [OF m]
    show "sublist (''/d/'' @ fileId @ ''/'') (pdf d)
            \<and> (\<exists>docs' uds' extra.
                  process_document env sn yr (docs, uds, log) (i, d)
                    = (docs', uds', log @ FetchPdf (downloadUrl fileId) # extra)
                  \<and> (\<forall>u. FetchPdf u \<notin> set extra))"
      by blast
  qed
  have two: "driveIdMatch (pdf d) = None \<longrightarrow>
              process_document env sn yr (docs, uds, log) (i, d) = (docs, uds, log)"
    using assms(2) by (simp add: process_document_no_match)
  from one two driveIdMatch_None [of "pdf d"] show ?thesis by blast
qed

theorem link_resolution_witness:
  "pdf plain_doc \<noteq> [] \<and> pdfStorageUrl plain_doc = []
   \<and> \<not> sublist ''/d/'' (pdf plain_doc)
   \<and> process_document sample_env ''spring'' ''2026'' ([plain_doc], [], []) (0, plain_doc)
       = ([plain_doc], [], [])
   \<and> pdf sample_doc \<noteq> [] \<and> pdfStorageUrl sample_doc = []
   \<and> driveIdMatch (pdf sample_doc) = Some ''ABC123''
   \<and> sublist ''/d/ABC123/'' (pdf sample_doc)
   \<and> (\<exists>docs' uds' extra.
         process_document sample_env ''spring'' ''2026'' ([sample_doc], [], []) (0, sample_doc)
           = (docs', uds', FetchPdf (downloadUrl ''ABC123'') # extra)
         \<and> (\<forall>u. FetchPdf u \<notin> set extra))"
proof -
  have p: "pdf plain_doc \<noteq> []" "pdfStorageUrl plain_doc = []"
    by (simp_all add: plain_doc_fields)
  have n: "\<not> sublist ''/d/'' (pdf plain_doc)"
    unfolding plain_doc_fields by code_simp
  have s: "pdf sample_doc \<noteq> []" "pdfStorageUrl sample_doc = []"
    by (simp_all add: sample_doc_fields)
  have m: "driveIdMatch (pdf sample_doc) = Some ''ABC123''"
    by (simp only: sample_doc_fields sample_drive_id)
  from link_resolution [OF p, of sample_env "''spring''" "''2026''" "[plain_doc]" "[]" "[]" 0] n
  have one: "process_document sample_env ''spring'' ''2026'' ([plain_doc], [], []) (0, plain_doc)
       = ([plain_doc], [], [])"
    by (elim conjE) (simp only: simp_thms)
  from link_resolution [OF s, of sample_env "''spring''" "''2026''" "[sample_doc]" "[]" "[]" 0] m
  have two: "sublist (''/d/'' @ ''ABC123'' @ ''/'') (pdf sample_doc)
   \<and> (\<exists>docs' uds' extra.
         process_document sample_env ''spring'' ''2026'' ([sample_doc], [], []) (0, sample_doc)
           = (docs', uds', [] @ FetchPdf (downloadUrl ''ABC123'') # extra)
         \<and> (\<forall>u. FetchPdf u \<notin> set extra))"
    by blast
  from p n s m one two show ?thesis by simp
qed

section \<open>The upload handler: repeated calls\<close>

text \<open>
  Claim C2, as stated, fails in its last part: when \<^verbatim>\<open>updateDoc\<close> throws after the blob
  has been stored, the \<^verbatim>\<open>catch\<close> of the loop body only logs, the document stays without
  \<^verbatim>\<open>pdfStorageUrl\<close>, and the next call stores a second blob for the same document
  (under a new file name, since the name carries the time).
\<close>

theorem upload_twice_counterexample:
  "upload_ccl_pdf env_update_fails [sample_doc] sample_req =
     ([sample_doc], PdfProcessed [],
      [FetchPdf ''https://drive.google.com/uc?export=download&id=ABC123'',
       Upload 0 ''ccl/spring/2026/1730000000123_ccl_spring_2026.pdf''])
   \<and> upload_ccl_pdf env_update_fails_later
         (fst (upload_ccl_pdf env_update_fails [sample_doc] sample_req)) sample_req =
     ([sample_doc], PdfProcessed [],
      [FetchPdf ''https://drive.google.com/uc?export=download&id=ABC123'',
       Upload 0 ''ccl/spring/2026/1730000005000_ccl_spring_2026.pdf''])"
  by (simp add: upload_eval env_update_fails_fields env_update_fails_later_fields
      sample_process_update_fails sample_process_update_fails_later)

text \<open>
  Claim C2, amended. A call does nothing for a document that already has a
  \<^verbatim>\<open>pdfStorageUrl\<close>: the document is unchanged, no blob is stored and no update is made
  for it; and when the call is a POST request for the season and year of the document and
  the query resolves, the document is reported in \<^verbatim>\<open>updatedDocs\<close> with
  \<^verbatim>\<open>exists: true\<close>. Of two calls in succession: a document that the first call
  updated has a \<^verbatim>\<open>pdfStorageUrl\<close> afterwards, provided the blob store does not hand out
  an empty URL, and the second call stores no blob for it. (Nothing is promised for a
  document whose upload in the first call was not followed by a successful update.)
\<close>

theorem archive_idempotent:
  assumes call: "upload_ccl_pdf env docs req = (docs', resp, log)"
  shows "(pdfStorageUrl (docs ! i) \<noteq> [] \<longrightarrow>
            docs' ! i = docs ! i \<and> (\<forall>n. Upload i n \<notin> set log) \<and> Update i \<notin> set log
            \<and> (i < length docs \<and> req_method req = ''POST'' \<and> getDocs_ok env
                \<and> season (docs ! i) = req_season req \<and> req_season req \<noteq> []
                \<and> year (docs ! i) = req_year req \<and> req_year req \<noteq> []
                \<longrightarrow> (\<exists>uds. resp = PdfProcessed uds
                       \<and> \<lparr>doc_id = i, storageUrl = pdfStorageUrl (docs ! i), already_exists = True\<rparr>
                           \<in> set uds)))
         \<and> (upload_ccl_pdf env0 docs0 req0 = (docs, resp0, log0)
              \<and> (\<forall>n. getDownloadURL env0 n \<noteq> Some []) \<and> Update i \<in> set log0 \<longrightarrow>
              pdfStorageUrl (docs ! i) \<noteq> [] \<and> (\<forall>n. Upload i n \<notin> set log))"
proof -
  have a: "pdfStorageUrl (docs ! i) \<noteq> [] \<longrightarrow>
            docs' ! i = docs ! i \<and> (\<forall>n. Upload i n \<notin> set log) \<and> Update i \<notin> set log
            \<and> (i < length docs \<and> req_method req = ''POST'' \<and> getDocs_ok env
                \<and> season (docs ! i) = req_season req \<and> req_season req \<noteq> []
                \<and> year (docs ! i) = req_year req \<and> req_year req \<noteq> []
                \<longrightarrow> (\<exists>uds. resp = PdfProcessed uds
                       \<and> \<lparr>doc_id = i, storageUrl = pdfStorageUrl (docs ! i), already_exists = True\<rparr>
                           \<in> set uds))"
  proof
    assume url: "pdfStorageUrl (docs ! i) \<noteq> []"
    have r: "i < length docs \<and> req_method req = ''POST'' \<and> getDocs_ok env
                \<and> season (docs ! i) = req_season req \<and> req_season req \<noteq> []
                \<and> year (docs ! i) = req_year req \<and> req_year req \<noteq> []
                \<longrightarrow> (\<exists>uds. resp = PdfProcessed uds
                       \<and> \<lparr>doc_id = i, storageUrl = pdfStorageUrl (docs ! i), already_exists = True\<rparr>
                           \<in> set uds)"
    proof
      assume h: "i < length docs \<and> req_method req = ''POST'' \<and> getDocs_ok env
                \<and> season (docs ! i) = req_season req \<and> req_season req \<noteq> []
                \<and> year (docs ! i) = req_year req \<and> req_year req \<noteq> []"
      then have "(i, docs ! i) \<in> set (getDocs docs (req_season req) (req_year req))"
        by (simp add: getDocs_member)
      then have "getDocs docs (req_season req) (req_year req) \<noteq> []" by auto
      with h upload_ccl_pdf_reaches [of req env docs] call
      obtain uds where resp: "resp = PdfProcessed uds" by auto
      with call have "upload_ccl_pdf env docs req = (docs', PdfProcessed uds, log)" by simp
      from upload_archived_reported [OF this _ url] h resp
      show "\<exists>uds. resp = PdfProcessed uds
              \<and> \<lparr>doc_id = i, storageUrl = pdfStorageUrl (docs ! i), already_exists = True\<rparr>
                  \<in> set uds"
        by simp
    qed
    from upload_archived_untouched [OF call url] r
    show "docs' ! i = docs ! i \<and> (\<forall>n. Upload i n \<notin> set log) \<and> Update i \<notin> set log
            \<and> (i < length docs \<and> req_method req = ''POST'' \<and> getDocs_ok env
                \<and> season (docs ! i) = req_season req \<and> req_season req \<noteq> []
                \<and> year (docs ! i) = req_year req \<and> req_year req \<noteq> []
                \<longrightarrow> (\<exists>uds. resp = PdfProcessed uds
                       \<and> \<lparr>doc_id = i, storageUrl = pdfStorageUrl (docs ! i), already_exists = True\<rparr>
                           \<in> set uds))"
      by blast
  qed
  have b: "upload_ccl_pdf env0 docs0 req0 = (docs, resp0, log0)
              \<and> (\<forall>n. getDownloadURL env0 n \<noteq> Some []) \<and> Update i \<in> set log0 \<longrightarrow>
              pdfStorageUrl (docs ! i) \<noteq> [] \<and> (\<forall>n. Upload i n \<notin> set log)"
  proof
    assume h: "upload_ccl_pdf env0 docs0 req0 = (docs, resp0, log0)
              \<and> (\<forall>n. getDownloadURL env0 n \<noteq> Some []) \<and> Update i \<in> set log0"
    then have first: "upload_ccl_pdf env0 docs0 req0 = (docs, resp0, log0)"
      and u: "Update i \<in> set log0" by simp_all
    from upload_update_stores_url [OF first u] h
    have url: "pdfStorageUrl (docs ! i) \<noteq> []" by metis
    with a show "pdfStorageUrl (docs ! i) \<noteq> [] \<and> (\<forall>n. Upload i n \<notin> set log)" by blast
  qed
  from a b show ?thesis by blast
qed

theorem archive_idempotent_witness:
  "upload_ccl_pdf sample_env [sample_doc] sample_req =
     ([archived_doc],
      PdfProcessed [\<lparr>doc_id = 0, storageUrl = sample_storage_url, already_exists = False\<rparr>],
      [FetchPdf ''https://drive.google.com/uc?export=download&id=ABC123'',
       Upload 0 ''ccl/spring/2026/1730000000123_ccl_spring_2026.pdf'', Update 0])
   \<and> upload_ccl_pdf sample_env [archived_doc] sample_req =
     ([archived_doc],
      PdfProcessed [\<lparr>doc_id = 0, storageUrl = sample_storage_url, already_exists = True\<rparr>],
      [])
   \<and> (\<forall>n. getDownloadURL sample_env n \<noteq> Some [])
   \<and> pdfStorageUrl ([archived_doc] ! 0) \<noteq> []
   \<and> (\<exists>uds. PdfProcessed [\<lparr>doc_id = 0, storageUrl = sample_storage_url, already_exists = True\<rparr>]
               = PdfProcessed uds
         \<and> \<lparr>doc_id = 0, storageUrl = pdfStorageUrl ([archived_doc] ! 0), already_exists = True\<rparr>
             \<in> set uds)"
proof -
  have g: "\<forall>n. getDownloadURL sample_env n \<noteq> Some []"
    by (simp add: sample_env_fields)
  have u: "Update 0 \<in> set [FetchPdf ''https://drive.google.com/uc?export=download&id=ABC123'',
       Upload 0 ''ccl/spring/2026/1730000000123_ccl_spring_2026.pdf'', Update 0]"
    by simp
  have k: "0 < length [archived_doc] \<and> req_method sample_req = ''POST'' \<and> getDocs_ok sample_env
      \<and> season ([archived_doc] ! 0) = req_season sample_req \<and> req_season sample_req \<noteq> []
      \<and> year ([archived_doc] ! 0) = req_year sample_req \<and> req_year sample_req \<noteq> []"
    by (simp add: sample_req_fields sample_env_fields archived_doc_fields)
  note t = archive_idempotent [OF sample_upload_again, of 0 sample_env "[sample_doc]" sample_req
      "PdfProcessed [\<lparr>doc_id = 0, storageUrl = sample_storage_url, already_exists = False\<rparr>]"
      "[FetchPdf ''https://drive.google.com/uc?export=download&id=ABC123'',
        Upload 0 ''ccl/spring/2026/1730000000123_ccl_spring_2026.pdf'', Update 0]"]
  from t sample_upload g u have url: "pdfStorageUrl ([archived_doc] ! 0) \<noteq> []"
    by blast
  with t k have "\<exists>uds. PdfProcessed [\<lparr>doc_id = 0, storageUrl = sample_storage_url, already_exists = True\<rparr>]
               = PdfProcessed uds
         \<and> \<lparr>doc_id = 0, storageUrl = pdfStorageUrl ([archived_doc] ! 0), already_exists = True\<rparr>
             \<in> set uds"
    by blast
  with sample_upload sample_upload_again g url show ?thesis by blast
qed

section \<open>The extraction handler\<close>

text \<open>
  Claim C3, as stated, fails when the season and year have several documents: the
  handler looks at the first document of the snapshot only. Here the second document has
  no \<^verbatim>\<open>pdfStorageUrl\<close>, and the call fetches the first document's file, invokes the
  model and answers with status 200.
\<close>

theorem extract_second_record_counterexample:
  "pdfStorageUrl ([archived_doc, sample_doc] ! 1) = []
   \<and> season ([archived_doc, sample_doc] ! 1) = req_season sample_req
   \<and> year ([archived_doc, sample_doc] ! 1) = req_year sample_req
   \<and> extract_ccl_info sample_env [archived_doc, sample_doc] sample_req =
       ([archived_doc\<lparr>tournamentInfo := Some (JObject [])\<rparr>, sample_doc],
        Extracted (JObject []),
        [FetchPdf sample_storage_url, Invoke (extraction_prompt ''Rules of the league''), Update 0])"
  by (simp add: extract_ccl_info_def sample_req_fields sample_snapshots Let_def
      sample_env_fields archived_doc_fields sample_doc_fields sample_clean_content)

text \<open>
  Claim C3, amended. When the first document of the requested season and year has no
  \<^verbatim>\<open>pdfStorageUrl\<close>, the call (a POST request with both parameters, the query
  resolving) answers with status 400 and the message that the PDF has not been uploaded;
  no fetch is issued, the model is not invoked, and the collection is unchanged.
\<close>

theorem extract_requires_archive:
  assumes "req_method req = ''POST''" and "req_season req \<noteq> []" and "req_year req \<noteq> []"
    and "getDocs_ok env"
    and "List.find (\<lambda>d. season d = req_season req \<and> year d = req_year req) docs = Some d"
    and "pdfStorageUrl d = []"
  shows "extract_ccl_info env docs req = (docs, PdfNotUploaded, [])
         \<and> status PdfNotUploaded = 400
         \<and> message req PdfNotUploaded = ''PDF has not been uploaded yet.''"
proof -
  from find_getDocs [OF assms(5)] obtain i rest where
    "getDocs docs (req_season req) (req_year req) = (i, d) # rest" by blast
  with assms(1-4,6) show ?thesis
    by (simp add: extract_ccl_info_def Let_def)
qed

theorem extract_requires_archive_witness:
  "List.find (\<lambda>d. season d = req_season sample_req \<and> year d = req_year sample_req)
     [sample_doc, archived_doc] = Some sample_doc
   \<and> pdfStorageUrl sample_doc = []
   \<and> extract_ccl_info sample_env [sample_doc, archived_doc] sample_req
       = ([sample_doc, archived_doc], PdfNotUploaded, [])
   \<and> status PdfNotUploaded = 400
   \<and> message sample_req PdfNotUploaded = ''PDF has not been uploaded yet.''"
proof -
  have f: "List.find (\<lambda>d. season d = req_season sample_req \<and> year d = req_year sample_req)
     [sample_doc, archived_doc] = Some sample_doc"
    by (simp add: sample_req_fields sample_doc_fields)
  have r: "req_method sample_req = ''POST''" "req_season sample_req \<noteq> []"
    "req_year sample_req \<noteq> []" "getDocs_ok sample_env"
    by (simp_all add: sample_req_fields sample_env_fields)
  have e: "pdfStorageUrl sample_doc = []" by (simp add: sample_doc_fields)
  from extract_requires_archive [OF r f e] f e show ?thesis by blast
qed

text \<open>
  Claim C5, as stated, fails in the status: the error thrown after a failed
  \<^verbatim>\<open>JSON.parse\<close> is answered by the outer \<^verbatim>\<open>catch\<close>, whose status is 500, not 502.
\<close>

theorem parse_failure_status_counterexample:
  "JSON_parse env_not_json (clean_content ''I could not find the dates.'') = None
   \<and> extract_ccl_info env_not_json [archived_doc] sample_req =
       ([archived_doc], InternalError,
        [FetchPdf sample_storage_url, Invoke (extraction_prompt ''Rules of the league'')])
   \<and> status (fst (snd (extract_ccl_info env_not_json [archived_doc] sample_req))) = 500"
  by (simp add: extract_ccl_info_def sample_req_fields sample_snapshots Let_def
      env_not_json_fields archived_doc_fields sample_clean_content)

text \<open>
  Claim C5, amended. When the content of the model's answer, with the code fences
  removed and trimmed, is rejected by \<^verbatim>\<open>JSON.parse\<close>, the call fails as a whole with
  status 500: the answer carries no tournament info, the collection is unchanged (no
  \<^verbatim>\<open>tournamentInfo\<close> is written), and the only effects are the fetch of the archived
  file and the model call.
\<close>

theorem extract_parse_failure:
  assumes "req_method req = ''POST''" and "req_season req \<noteq> []" and "req_year req \<noteq> []"
    and "getDocs_ok env"
    and "List.find (\<lambda>d. season d = req_season req \<and> year d = req_year req) docs = Some d"
    and "pdfStorageUrl d \<noteq> []"
    and "fetch_pdf env (pdfStorageUrl d) = Ok buffer"
    and "pdf_text env buffer = Some fullText"
    and "llm_invoke env (extraction_prompt fullText) = Some content"
    and "JSON_parse env (clean_content content) = None"
  shows "extract_ccl_info env docs req =
           (docs, InternalError, [FetchPdf (pdfStorageUrl d), Invoke (extraction_prompt fullText)])
         \<and> status InternalError = 500"
proof -
  from find_getDocs [OF assms(5)] obtain i rest where
    "getDocs docs (req_season req) (req_year req) = (i, d) # rest" by blast
  with assms(1-4,6-10) show ?thesis
    by (simp add: extract_ccl_info_def Let_def)
qed

theorem extract_parse_failure_witness:
  "List.find (\<lambda>d. season d = req_season sample_req \<and> year d = req_year sample_req)
     [archived_doc] = Some archived_doc
   \<and> llm_invoke env_not_json (extraction_prompt ''Rules of the league'')
       = Some ''I could not find the dates.''
   \<and> JSON_parse env_not_json (clean_content ''I could not find the dates.'') = None
   \<and> extract_ccl_info env_not_json [archived_doc] sample_req =
       ([archived_doc], InternalError,
        [FetchPdf (pdfStorageUrl archived_doc), Invoke (extraction_prompt ''Rules of the league'')])
   \<and> status InternalError = 500"
proof -
  have f: "List.find (\<lambda>d. season d = req_season sample_req \<and> year d = req_year sample_req)
     [archived_doc] = Some archived_doc"
    by (simp add: sample_req_fields archived_doc_fields)
  have r: "req_method sample_req = ''POST''" "req_season sample_req \<noteq> []"
    "req_year sample_req \<noteq> []" "getDocs_ok env_not_json"
    by (simp_all add: sample_req_fields env_not_json_fields)
  have u: "pdfStorageUrl archived_doc \<noteq> []" by (simp add: archived_doc_fields)
  have c: "fetch_pdf env_not_json (pdfStorageUrl archived_doc) = Ok ''%PDF-1.7''"
    "pdf_text env_not_json ''%PDF-1.7'' = Some ''Rules of the league''"
    "llm_invoke env_not_json (extraction_prompt ''Rules of the league'')
       = Some ''I could not find the dates.''"
    "JSON_parse env_not_json (clean_content ''I could not find the dates.'') = None"
    by (simp_all add: env_not_json_fields sample_clean_content)
  from extract_parse_failure [OF r f u c] f c(3,4) show ?thesis by blast
qed

lemma extract_ccl_info_cases:
  assumes "extract_ccl_info env docs req = (docs', resp, log)"
  shows "(docs' = docs \<and> (\<forall>info. resp \<noteq> Extracted info)
          \<and> (\<forall>u. FetchPdf u \<in> set log \<longrightarrow>
                (\<exists>i d rest. getDocs docs (req_season req) (req_year req) = (i, d) # rest
                   \<and> u = pdfStorageUrl d)))
         \<or> (\<exists>i d rest info.
               getDocs docs (req_season req) (req_year req) = (i, d) # rest
               \<and> resp = Extracted info
               \<and> docs' = docs[i := (docs ! i)\<lparr>tournamentInfo := Some info\<rparr>]
               \<and> (\<exists>prompt. log = [FetchPdf (pdfStorageUrl d), Invoke prompt, Update i]))"
  using assms
  by (auto simp: extract_ccl_info_def Let_def
      split: if_splits list.splits outcome.splits option.splits prod.splits)

text \<open>
  Claim C10. Whatever the call does, the collection keeps its length, and a document that
  differs afterwards is the first one of the requested season and year, differs in
  \<^verbatim>\<open>tournamentInfo\<close> only, and the answer is the success answer carrying that value.
  Every fetch of the call is at the \<^verbatim>\<open>pdfStorageUrl\<close> of that first document, and on
  success the first document, with the new \<^verbatim>\<open>tournamentInfo\<close>, is in the collection.
\<close>

theorem extract_touches_first_only:
  assumes "extract_ccl_info env docs req = (docs', resp, log)"
  shows "length docs' = length docs
         \<and> (\<forall>j < length docs. docs' ! j \<noteq> docs ! j \<longrightarrow>
               season (docs ! j) = req_season req \<and> year (docs ! j) = req_year req
               \<and> (\<forall>k < j. \<not> (season (docs ! k) = req_season req \<and> year (docs ! k) = req_year req))
               \<and> (\<exists>info. resp = Extracted info
                     \<and> docs' ! j = (docs ! j)\<lparr>tournamentInfo := Some info\<rparr>))
         \<and> (\<forall>u. FetchPdf u \<in> set log \<longrightarrow>
               (\<exists>d. List.find (\<lambda>d. season d = req_season req \<and> year d = req_year req) docs = Some d
                  \<and> u = pdfStorageUrl d))
         \<and> (\<forall>info. resp = Extracted info \<longrightarrow>
               (\<exists>d. List.find (\<lambda>d. season d = req_season req \<and> year d = req_year req) docs = Some d
                  \<and> d\<lparr>tournamentInfo := Some info\<rparr> \<in> set docs'))"
proof -
  from extract_ccl_info_cases [OF assms] consider
    (same) "docs' = docs" and "\<forall>info. resp \<noteq> Extracted info"
      and "\<forall>u. FetchPdf u \<in> set log \<longrightarrow>
                (\<exists>i d rest. getDocs docs (req_season req) (req_year req) = (i, d) # rest
                   \<and> u = pdfStorageUrl d)"
    | (written) i d rest info prompt where
        "getDocs docs (req_season req) (req_year req) = (i, d) # rest"
        and "resp = Extracted info"
        and "docs' = docs[i := (docs ! i)\<lparr>tournamentInfo := Some info\<rparr>]"
        and "log = [FetchPdf (pdfStorageUrl d), Invoke prompt, Update i]"
    by blast
  then show ?thesis
  proof cases
    case same
    from same(3) have "\<forall>u. FetchPdf u \<in> set log \<longrightarrow>
               (\<exists>d. List.find (\<lambda>d. season d = req_season req \<and> year d = req_year req) docs = Some d
                  \<and> u = pdfStorageUrl d)"
      using getDocs_first(5) by blast
    with same(1,2) show ?thesis by simp
  next
    case written
    note f = getDocs_first [OF written(1)]
    have a: "length docs' = length docs" using written(3) by simp
    have b: "\<forall>j < length docs. docs' ! j \<noteq> docs ! j \<longrightarrow>
               season (docs ! j) = req_season req \<and> year (docs ! j) = req_year req
               \<and> (\<forall>k < j. \<not> (season (docs ! k) = req_season req \<and> year (docs ! k) = req_year req))
               \<and> (\<exists>info. resp = Extracted info
                     \<and> docs' ! j = (docs ! j)\<lparr>tournamentInfo := Some info\<rparr>)"
    proof (intro allI impI)
      fix j assume j: "j < length docs" and ne: "docs' ! j \<noteq> docs ! j"
      from ne written(3) have ji: "j = i" by (cases "j = i") simp_all
      with f written(2,3) j
      show "season (docs ! j) = req_season req \<and> year (docs ! j) = req_year req
               \<and> (\<forall>k < j. \<not> (season (docs ! k) = req_season req \<and> year (docs ! k) = req_year req))
               \<and> (\<exists>info. resp = Extracted info
                     \<and> docs' ! j = (docs ! j)\<lparr>tournamentInfo := Some info\<rparr>)"
        by simp
    qed
    have c: "\<forall>u. FetchPdf u \<in> set log \<longrightarrow>
               (\<exists>d. List.find (\<lambda>d. season d = req_season req \<and> year d = req_year req) docs = Some d
                  \<and> u = pdfStorageUrl d)"
      using f(5) written(4) by simp
    have "docs' ! i = d\<lparr>tournamentInfo := Some info\<rparr>"
      using f(1,2) written(3) by simp
    with f(1) a have "d\<lparr>tournamentInfo := Some info\<rparr> \<in> set docs'"
      by (metis nth_mem)
    with f(5) written(2) have d: "\<forall>info. resp = Extracted info \<longrightarrow>
               (\<exists>d. List.find (\<lambda>d. season d = req_season req \<and> year d = req_year req) docs = Some d
                  \<and> d\<lparr>tournamentInfo := Some info\<rparr> \<in> set docs')"
      by simp
    from a b c d show ?thesis by blast
  qed
qed

theorem extract_touches_first_only_witness:
  "extract_ccl_info sample_env [archived_doc, sample_doc] sample_req =
       ([archived_doc\<lparr>tournamentInfo := Some (JObject [])\<rparr>, sample_doc],
        Extracted (JObject []),
        [FetchPdf sample_storage_url, Invoke (extraction_prompt ''Rules of the league''), Update 0])
   \<and> length [archived_doc\<lparr>tournamentInfo := Some (JObject [])\<rparr>, sample_doc]
       = length [archived_doc, sample_doc]
   \<and> (\<exists>d. List.find (\<lambda>d. season d = req_season sample_req \<and> year d = req_year sample_req)
              [archived_doc, sample_doc] = Some d
          \<and> sample_storage_url = pdfStorageUrl d)"
proof -
  have "FetchPdf sample_storage_url \<in> set [FetchPdf sample_storage_url,
          Invoke (extraction_prompt ''Rules of the league''), Update 0]"
    by simp
  with extract_touches_first_only [OF sample_extract] sample_extract
  show ?thesis by blast
qed

end
